theory Spec2Isabelle
  imports Main
begin

section \<open>clientsidetrim: injecting client-side buffer deletions into a trace\<close>

text \<open>
  The tool of \<^verbatim>\<open>src/patrace/src/tool/clientsidetrim.cpp\<close> reads a trace twice. The
  first pass only harvests, from the parser, the last use of every client-side buffer;
  the second pass copies every call to the output and writes a
  \<^verbatim>\<open>glDeleteClientSideBuffer\<close> call after each last use.

  The embedding follows \<^verbatim>\<open>main\<close> statement by statement. Everything \<^verbatim>\<open>main\<close>
  does to the outside (the parser, the output file, the standard streams) is an event
  of a log, in program order; a run is the log together with the way the run ended.
\<close>

subsection \<open>Data of the collaborating classes\<close>

text \<open>
  Modelled from the spec: \<^verbatim>\<open>common::ValueTM\<close> is declared in
  \<^verbatim>\<open>common/trace_model.hpp\<close>, which is not among the sources. The spec calls the
  arguments of a call typed values that are opaque to the tool, except for the integer
  it builds with \<^verbatim>\<open>new common::ValueTM(int)\<close>.
\<close>

datatype ValueTM = Int_Type int | Opaque_Type string

text \<open>
  Modelled from the spec: \<^verbatim>\<open>common::CallTM\<close> is declared in
  \<^verbatim>\<open>common/trace_model.hpp\<close>, which is not among the sources. A Call Record has a
  name, a global ordinal, the id of its thread and an ordered argument list.
\<close>

record CallTM =
  mCallNo :: int
  mTid :: int
  mCallName :: string
  mArgs :: "ValueTM list"

text \<open>
  Modelled from the spec: the constructor \<^verbatim>\<open>CallTM(name)\<close> gives a call of that
  name with no argument yet; the ordinal (which is not persisted) and the thread id
  start at zero.
\<close>

definition CallTM_named :: "string \<Rightarrow> CallTM" where
  "CallTM_named name = \<lparr>mCallNo = 0, mTid = 0, mCallName = name, mArgs = []\<rparr>"

text \<open>
  Modelled from the spec: the header is a JSON value (\<^verbatim>\<open>Json::Value\<close>, of a library
  that is not among the sources). The tool carries its content through untouched and
  only appends to its conversion history; an entry of the history records the
  operation, the source file and free-form info, which a default-constructed
  \<^verbatim>\<open>Json::Value info\<close> leaves empty.
\<close>

record conversion_entry =
  operation :: string
  source :: string
  info :: "(string \<times> string) list"

record Header =
  content :: string
  conversions :: "conversion_entry list"

text \<open>
  Modelled from the spec: \<^verbatim>\<open>addConversionEntry\<close> is declared in
  \<^verbatim>\<open>tool/utils.hpp\<close>, which is not among the sources. It appends one entry to the
  conversion history of the header it is given.
\<close>

definition addConversionEntry ::
  "Header \<Rightarrow> string \<Rightarrow> string \<Rightarrow> (string \<times> string) list \<Rightarrow> Header" where
  "addConversionEntry hdr opn src inf0 =
     hdr\<lparr>conversions := conversions hdr @ [\<lparr>operation = opn, source = src, info = inf0\<rparr>]\<rparr>"

text \<open>
  What a \<^verbatim>\<open>ParseInterface\<close> holds once \<^verbatim>\<open>open\<close> has succeeded: the header, the
  calls that \<^verbatim>\<open>next_call\<close> returns one by one before it returns the null pointer,
  and the two tables \<^verbatim>\<open>main\<close> copies after it has drained the parser. The tables
  are nested maps (thread id, then client-side buffer id); they are listed here in the
  order in which the range-based \<^verbatim>\<open>for\<close> loops visit them.
\<close>

record ParseInterface =
  header :: Header
  calls :: "CallTM list"
  client_side_last_use :: "(int \<times> (int \<times> int) list) list"
  client_side_last_use_reason :: "(int \<times> (int \<times> string) list) list"

text \<open>
  The parts of the program and of its surroundings that the source file does not fix:
  the version macro, the wire format of a call (\<^verbatim>\<open>CallTM::Serialize\<close>), the JSON
  writer, and what the three attempts to open a file find. The source is opened twice,
  and nothing says that the second attempt finds what the first one found.
\<close>

record env =
  PATRACE_VERSION :: string
  Serialize :: "CallTM \<Rightarrow> string"
  json_write :: "Header \<Rightarrow> string"
  open_pass1 :: "string \<Rightarrow> ParseInterface option"
  open_output :: "string \<Rightarrow> bool"
  open_pass2 :: "string \<Rightarrow> ParseInterface option"

subsection \<open>Events and runs\<close>

datatype event =
    Stdout string
  | Stderr string
  | DbgLog string
  | NewParseInterface bool
  | SetQuickMode bool
  | SetScreenshots bool
  | OpenSource string bool
  | NextCall "CallTM option"
  | CloseSource
  | DeleteParseInterface
  | OpenOutput string bool
  | SetJsonLength nat
  | WriteHeader string nat
  | Write CallTM string
  | CloseOutput

text \<open>
  \<^verbatim>\<open>Write c bytes\<close> is one call \<^verbatim>\<open>writeout(outputFile, c)\<close> that ran to its end:
  \<^verbatim>\<open>c\<close> was serialized and \<^verbatim>\<open>outputFile.Write\<close> received \<^verbatim>\<open>bytes\<close>.

  A run ends by \<^verbatim>\<open>return n\<close> from \<^verbatim>\<open>main\<close>, by the exception
  \<^verbatim>\<open>std::out_of_range\<close> that \<^verbatim>\<open>at\<close> throws and nothing catches, or by a store past
  the end of the staging buffer, after which C++ promises nothing.
\<close>

datatype ending = Exit int | Uncaught_out_of_range | Buffer_overrun

type_synonym 'a run = "event list \<times> (ending + 'a)"

definition ret :: "'a \<Rightarrow> 'a run" where
  "ret x = ([], Inr x)"

definition emit :: "event list \<Rightarrow> unit run" where
  "emit es = (es, Inr ())"

definition finish :: "ending \<Rightarrow> 'a run" where
  "finish e = ([], Inl e)"

fun and_then :: "'a run \<Rightarrow> ('a \<Rightarrow> 'b run) \<Rightarrow> 'b run" where
  "and_then (es, Inl e) f = (es, Inl e)"
| "and_then (es, Inr x) f = (case f x of (es', r) \<Rightarrow> (es @ es', r))"

definition before :: "unit run \<Rightarrow> 'b run \<Rightarrow> 'b run" where
  "before p q = and_then p (\<lambda>_. q)"

subsection \<open>Printing\<close>

definition endl :: string where
  "endl = [CHR 0x0A]"

definition tab :: string where
  "tab = [CHR 0x09]"

definition digit :: "nat \<Rightarrow> char" where
  "digit d = ''0123456789'' ! d"

fun dec_nat :: "nat \<Rightarrow> string" where
  "dec_nat n =
     (if n < 10 then [digit n]
      else dec_nat (n div 10) @ [digit (n mod 10)])"

declare dec_nat.simps [simp del]

text \<open>The conversion \<^verbatim>\<open>%d\<close> of \<^verbatim>\<open>printf\<close>.\<close>

definition dec :: "int \<Rightarrow> string" where
  "dec i = (if i < 0 then ''-'' @ dec_nat (nat (- i)) else dec_nat (nat i))"

definition help_text :: string where
  "help_text =
     ''Usage : deduplicator [OPTIONS] trace_file.pat new_file.pat'' @ endl @
     ''Options:'' @ endl @
     ''  -h            Print help'' @ endl @
     ''  -v            Print version'' @ endl @
     ''  -d            Print debug info'' @ endl"

definition printHelp :: "unit run" where
  "printHelp = emit [Stdout help_text]"

definition printVersion :: "string \<Rightarrow> unit run" where
  "printVersion ver = emit [Stdout (ver @ endl)]"

subsection \<open>writeout\<close>

definition WRITE_BUF_LEN :: nat where
  "WRITE_BUF_LEN = 150 * 1024 * 1024"

text \<open>
  \<^verbatim>\<open>call->Serialize(dest)\<close> receives the start of the static buffer and no length, and
  \<^verbatim>\<open>writeout\<close> compares nothing with \<^verbatim>\<open>WRITE_BUF_LEN\<close>: a serialized call that is
  longer than the buffer is stored past its end.
\<close>

definition writeout :: "(CallTM \<Rightarrow> string) \<Rightarrow> CallTM \<Rightarrow> unit run" where
  "writeout ser call =
     (let bytes = ser call in
      if length bytes \<le> WRITE_BUF_LEN then emit [Write call bytes]
      else finish Buffer_overrun)"

subsection \<open>The option loop of main\<close>

text \<open>
  The loop runs over \<^verbatim>\<open>argv[argIndex]\<close> while \<^verbatim>\<open>argIndex < argc\<close>; the list is
  what is left of \<^verbatim>\<open>argv\<close> from \<^verbatim>\<open>argIndex\<close> on. \<^verbatim>\<open>arg[0]\<close> of an empty
  \<^verbatim>\<open>std::string\<close> is the null character, which is not a dash. The loop returns
  \<^verbatim>\<open>argIndex\<close> and the flag \<^verbatim>\<open>debug\<close>.
\<close>

fun options :: "string \<Rightarrow> string list \<Rightarrow> nat \<Rightarrow> bool \<Rightarrow> (nat \<times> bool) run" where
  "options ver [] argIndex debug = ret (argIndex, debug)"
| "options ver (arg # rest) argIndex debug =
     (if (case arg of [] \<Rightarrow> True | c # _ \<Rightarrow> c \<noteq> CHR ''-'') then ret (argIndex, debug)
      else if arg = ''-h'' then before printHelp (finish (Exit 1))
      else if arg = ''-d'' then options ver rest (argIndex + 1) True
      else if arg = ''-v'' then before (printVersion ver) (finish (Exit 0))
      else before (emit [Stderr (''Error: Unknown option '' @ arg @ endl)])
             (before printHelp (finish (Exit 1))))"

subsection \<open>The passes of main\<close>

text \<open>\<^verbatim>\<open>while ((call = inputFile->next_call())) {}\<close>\<close>

fun drain :: "CallTM list \<Rightarrow> unit run" where
  "drain [] = emit [NextCall None]"
| "drain (call # rest) = before (emit [NextCall (Some call)]) (drain rest)"

text \<open>\<^verbatim>\<open>at\<close> of a map: the value of the key, or \<^verbatim>\<open>std::out_of_range\<close>.\<close>

definition at :: "('k \<times> 'v) list \<Rightarrow> 'k \<Rightarrow> 'v run" where
  "at m k = (case map_of m k of None \<Rightarrow> finish Uncaught_out_of_range | Some v \<Rightarrow> ret v)"

text \<open>
  The inner loop over the pairs (buffer id, call number) of one thread. The map
  \<^verbatim>\<open>callno_to_client_side_last_use\<close> is assigned first, then the arguments of
  \<^verbatim>\<open>DBG_LOG\<close> are evaluated.
\<close>

fun flatten_pairs ::
  "(int \<times> (int \<times> string) list) list \<Rightarrow> int \<Rightarrow> (int \<times> int) list \<Rightarrow> (int \<rightharpoonup> int) \<Rightarrow>
     (int \<rightharpoonup> int) run" where
  "flatten_pairs reasons tid [] m = ret m"
| "flatten_pairs reasons tid ((cs, callno) # rest) m =
     and_then (at reasons tid) (\<lambda>of_thread.
     and_then (at of_thread cs) (\<lambda>reason.
     before (emit [DbgLog (tab @ ''t'' @ dec tid @ '' cs'' @ dec cs @ '' call'' @ dec callno @
                           '' endpoint='' @ reason @ endl)])
       (flatten_pairs reasons tid rest (m(callno \<mapsto> cs)))))"

fun flatten ::
  "(int \<times> (int \<times> string) list) list \<Rightarrow> (int \<times> (int \<times> int) list) list \<Rightarrow> (int \<rightharpoonup> int) \<Rightarrow>
     (int \<rightharpoonup> int) run" where
  "flatten reasons [] m = ret m"
| "flatten reasons ((tid, pairs) # rest) m =
     before (emit [Stdout (''Thread '' @ dec tid @ '' has '' @ dec (int (length pairs)) @
                           '' cs:call pairs'' @ endl)])
       (and_then (flatten_pairs reasons tid pairs m) (\<lambda>m'. flatten reasons rest m'))"

text \<open>
  \<^verbatim>\<open>operator[]\<close> of \<^verbatim>\<open>std::map<int, int>\<close>, read only: a key that is absent reads as
  the zero it would insert.
\<close>

definition subscript :: "(int \<rightharpoonup> int) \<Rightarrow> int \<Rightarrow> int" where
  "subscript m k = (case m k of None \<Rightarrow> 0 | Some v \<Rightarrow> v)"

text \<open>Lines 144 to 146: the call that is written after the last use \<^verbatim>\<open>call\<close>.\<close>

definition deletion :: "(int \<rightharpoonup> int) \<Rightarrow> CallTM \<Rightarrow> CallTM" where
  "deletion m call =
     (CallTM_named ''glDeleteClientSideBuffer'')
       \<lparr>mArgs := mArgs (CallTM_named ''glDeleteClientSideBuffer'') @
                  [Int_Type (subscript m (mCallNo call))],
        mTid := mTid call\<rparr>"

text \<open>
  The second loop, with its counter. \<^verbatim>\<open>count(k) > 0\<close> of a map holds when \<^verbatim>\<open>k\<close>
  is one of its keys. The counter is a C++ \<^verbatim>\<open>int\<close>; it is the integer of the model
  as long as fewer than \<^verbatim>\<open>2^31\<close> calls are injected.
\<close>

fun rewrite :: "(CallTM \<Rightarrow> string) \<Rightarrow> (int \<rightharpoonup> int) \<Rightarrow> CallTM list \<Rightarrow> int \<Rightarrow> int run" where
  "rewrite ser m [] count = before (emit [NextCall None]) (ret count)"
| "rewrite ser m (call # rest) count =
     before (emit [NextCall (Some call)])
       (before (writeout ser call)
          (if m (mCallNo call) \<noteq> None
           then before (writeout ser (deletion m call)) (rewrite ser m rest (count + 1))
           else rewrite ser m rest count))"

text \<open>Lines 116 to 155: from the first loop to the end.\<close>

definition passes :: "env \<Rightarrow> string \<Rightarrow> ParseInterface \<Rightarrow> unit run" where
  "passes e source_trace_filename inputFile =
     before (drain (calls inputFile))
    (before (emit [CloseSource, DeleteParseInterface, NewParseInterface True])
       (case open_pass2 e source_trace_filename of
          None \<Rightarrow>
            before (emit [OpenSource source_trace_filename False,
                          Stderr (''Failed to open for reading again: '' @
                                  source_trace_filename @ endl)])
              (finish (Exit 1))
        | Some inputFile2 \<Rightarrow>
            before (emit [OpenSource source_trace_filename True])
           (and_then (flatten (client_side_last_use_reason inputFile)
                        (client_side_last_use inputFile) Map.empty)
              (\<lambda>callno_to_client_side_last_use.
            and_then (rewrite (Serialize e) callno_to_client_side_last_use
                        (calls inputFile2) 0)
              (\<lambda>count.
            before (emit [CloseSource, CloseOutput,
                          Stdout (''Injected '' @ dec count @ '' deletion calls'' @ endl)])
              (finish (Exit 0)))))))"

text \<open>Lines 108 to 114: the header of the output.\<close>

definition json_header :: "env \<Rightarrow> string \<Rightarrow> ParseInterface \<Rightarrow> string" where
  "json_header e source_trace_filename inputFile =
     json_write e
       (addConversionEntry (header inputFile) ''inject_client_side_delete''
          source_trace_filename [])"

definition write_header :: "env \<Rightarrow> string \<Rightarrow> ParseInterface \<Rightarrow> unit run" where
  "write_header e source_trace_filename inputFile =
     emit [SetJsonLength (length (json_header e source_trace_filename inputFile)),
           WriteHeader (json_header e source_trace_filename inputFile)
             (length (json_header e source_trace_filename inputFile))]"

text \<open>Lines 91 to 155: \<^verbatim>\<open>main\<close> once \<^verbatim>\<open>argIndex + 2 <= argc\<close> is known.\<close>

definition transform :: "env \<Rightarrow> string list \<Rightarrow> nat \<Rightarrow> unit run" where
  "transform e argv argIndex =
     (let source_trace_filename = argv ! argIndex;
          target_trace_filename = argv ! (argIndex + 1)
      in before (emit [NewParseInterface True, SetQuickMode True, SetScreenshots False])
           (case open_pass1 e source_trace_filename of
              None \<Rightarrow>
                before (emit [OpenSource source_trace_filename False,
                              Stderr (''Failed to open for reading: '' @
                                      source_trace_filename @ endl)])
                  (finish (Exit 1))
            | Some inputFile \<Rightarrow>
                before (emit [OpenSource source_trace_filename True])
                  (if \<not> open_output e target_trace_filename then
                     before (emit [OpenOutput target_trace_filename False,
                                   Stderr (''Failed to open for writing: '' @
                                           target_trace_filename @ endl)])
                       (finish (Exit 1))
                   else
                     before (emit [OpenOutput target_trace_filename True])
                       (before (write_header e source_trace_filename inputFile)
                          (passes e source_trace_filename inputFile)))))"

definition main :: "env \<Rightarrow> string list \<Rightarrow> unit run" where
  "main e argv =
     and_then (options (PATRACE_VERSION e) (drop 1 argv) 1 False) (\<lambda>(argIndex, debug).
       if argIndex + 2 > length argv then before printHelp (finish (Exit 1))
       else transform e argv argIndex)"

subsection \<open>Reading a log\<close>

text \<open>
  The calls handed to \<^verbatim>\<open>writeout\<close>, with the bytes the output received, in order.
\<close>

definition written :: "event list \<Rightarrow> (CallTM \<times> string) list" where
  "written es = [(c, bytes). Write c bytes \<leftarrow> es]"

definition is_Write :: "event \<Rightarrow> bool" where
  "is_Write e = (case e of Write c bytes \<Rightarrow> True | _ \<Rightarrow> False)"

text \<open>
  In the second loop \<^verbatim>\<open>writeout(outputFile, call)\<close> comes right after
  \<^verbatim>\<open>next_call\<close>, and \<^verbatim>\<open>writeout(outputFile, &deletion)\<close> right after that
  \<^verbatim>\<open>writeout\<close>: a \<^verbatim>\<open>Write\<close> that directly follows a \<^verbatim>\<open>Write\<close> is a synthetic
  deletion, and the \<^verbatim>\<open>Write\<close> before it is the call that triggered it.
  \<^verbatim>\<open>without_synthetic\<close> removes the synthetic deletions from a log (the flag says
  whether the event before was a \<^verbatim>\<open>Write\<close> that was kept); \<^verbatim>\<open>synthetic\<close> lists
  them, each with its trigger.
\<close>

fun without_synthetic :: "bool \<Rightarrow> event list \<Rightarrow> event list" where
  "without_synthetic after_write [] = []"
| "without_synthetic after_write (e # es) =
     (if is_Write e \<and> after_write then without_synthetic False es
      else e # without_synthetic (is_Write e) es)"

fun synthetic :: "CallTM option \<Rightarrow> event list \<Rightarrow> (CallTM \<times> CallTM) list" where
  "synthetic prev [] = []"
| "synthetic prev (e # es) =
     (case e of
        Write c bytes \<Rightarrow>
          (case prev of
             None \<Rightarrow> synthetic (Some c) es
           | Some r \<Rightarrow> (r, c) # synthetic None es)
      | _ \<Rightarrow> synthetic None es)"

text \<open>
  For every \<^verbatim>\<open>open\<close> of a parser in a log: the setters called on that parser since
  it was constructed, the path, and whether the file opened.
\<close>

fun opened_with :: "event list \<Rightarrow> event list \<Rightarrow> (event list \<times> string \<times> bool) list" where
  "opened_with settings [] = []"
| "opened_with settings (e # es) =
     (case e of
        NewParseInterface b \<Rightarrow> opened_with [] es
      | SetQuickMode b \<Rightarrow> opened_with (settings @ [e]) es
      | SetScreenshots b \<Rightarrow> opened_with (settings @ [e]) es
      | OpenSource path ok \<Rightarrow> (settings, path, ok) # opened_with settings es
      | _ \<Rightarrow> opened_with settings es)"

text \<open>The events that construct, configure or open a parser.\<close>

definition touches_parser :: "event \<Rightarrow> bool" where
  "touches_parser e =
     (case e of
        NewParseInterface b \<Rightarrow> True
      | SetQuickMode b \<Rightarrow> True
      | SetScreenshots b \<Rightarrow> True
      | OpenSource path ok \<Rightarrow> True
      | _ \<Rightarrow> False)"

text \<open>The events that set or write the header of the output.\<close>

definition is_header_event :: "event \<Rightarrow> bool" where
  "is_header_event e =
     (case e of SetJsonLength n \<Rightarrow> True | WriteHeader s n \<Rightarrow> True | _ \<Rightarrow> False)"

text \<open>
  The assignments \<^verbatim>\<open>callno_to_client_side_last_use[pair.second] = pair.first\<close> in
  the order of the two nested loops: every thread, and every pair of the thread.
\<close>

definition insertions :: "(int \<times> (int \<times> int) list) list \<Rightarrow> (int \<times> int) list" where
  "insertions last_use =
     concat (map (\<lambda>(tid, pairs). map (\<lambda>(cs, callno). (callno, cs)) pairs) last_use)"

text \<open>An argument that does not begin with a dash ends the option loop.\<close>

definition positional :: "string \<Rightarrow> bool" where
  "positional arg = (case arg of [] \<Rightarrow> True | c # _ \<Rightarrow> c \<noteq> CHR ''-'')"

subsection \<open>Sample inputs\<close>

text \<open>
  A small wire format, for the examples only: the name of the call, then its arguments.
  The calls and the map are those of the example of the spec: five calls of thread 0
  (ordinals 1 to 5), three calls of thread 1 (ordinals 10 to 12), buffer 7 last used by
  call 3 and buffer 9 by call 11.
\<close>

definition sample_Serialize :: "CallTM \<Rightarrow> string" where
  "sample_Serialize c =
     mCallName c @
     concat (map (\<lambda>v. case v of Int_Type i \<Rightarrow> dec i | Opaque_Type s \<Rightarrow> s) (mArgs c))"

definition sample_call :: "int \<Rightarrow> int \<Rightarrow> CallTM" where
  "sample_call n t =
     \<lparr>mCallNo = n, mTid = t, mCallName = ''glDrawArrays'', mArgs = [Int_Type n]\<rparr>"

definition sample_calls :: "CallTM list" where
  "sample_calls =
     map (\<lambda>n. sample_call n 0) [1, 2, 3, 4, 5] @ map (\<lambda>n. sample_call n 1) [10, 11, 12]"

definition sample_map :: "int \<rightharpoonup> int" where
  "sample_map = [3 \<mapsto> 7, 11 \<mapsto> 9]"

definition sample_json_write :: "Header \<Rightarrow> string" where
  "sample_json_write h =
     content h @ concat (map (\<lambda>c. '' '' @ operation c @ '':'' @ source c) (conversions h))"

definition sample_source :: ParseInterface where
  "sample_source =
     \<lparr>header = \<lparr>content = ''{}'', conversions = []\<rparr>,
      calls = sample_calls,
      client_side_last_use = [(0, [(7, 3)]), (1, [(9, 11)])],
      client_side_last_use_reason =
        [(0, [(7, ''glDrawArrays'')]), (1, [(9, ''glDrawArrays'')])]\<rparr>"

definition sample_env :: env where
  "sample_env =
     \<lparr>PATRACE_VERSION = ''r4p1'',
      Serialize = sample_Serialize,
      json_write = sample_json_write,
      open_pass1 = (\<lambda>path. if path = ''in.pat'' then Some sample_source else None),
      open_output = (\<lambda>path. path = ''out.pat'' \<or> path = ''-h''),
      open_pass2 = (\<lambda>path. if path = ''in.pat'' then Some sample_source else None)\<rparr>"

text \<open>A call whose serialized form is one byte or more longer than the staging buffer.\<close>

definition big_call :: CallTM where
  "big_call =
     \<lparr>mCallNo = 1, mTid = 0, mCallName = ''glBufferData'',
      mArgs = [Opaque_Type (replicate (Suc WRITE_BUF_LEN) (CHR ''x''))]\<rparr>"

text \<open>The command line of the sample run.\<close>

definition sample_argv :: "string list" where
  "sample_argv = [''clientsidetrim'', ''in.pat'', ''out.pat'']"

text \<open>The surroundings of a run on a trace whose only call is \<^verbatim>\<open>big_call\<close>.\<close>

definition big_env :: env where
  "big_env =
     sample_env
       \<lparr>open_pass1 := (\<lambda>path. Some (sample_source\<lparr>calls := [big_call],
                                       client_side_last_use := [],
                                       client_side_last_use_reason := []\<rparr>)),
        open_pass2 := (\<lambda>path. Some (sample_source\<lparr>calls := [big_call]\<rparr>))\<rparr>"

text \<open>The deletion of buffer \<^verbatim>\<open>b\<close> on thread \<^verbatim>\<open>t\<close>, written out.\<close>

definition sample_deletion :: "int \<Rightarrow> int \<Rightarrow> CallTM" where
  "sample_deletion b t =
     \<lparr>mCallNo = 0, mTid = t, mCallName = ''glDeleteClientSideBuffer'', mArgs = [Int_Type b]\<rparr>"

text \<open>
  The malformed tables of the second example of the spec: call 3 is the last use of
  buffer 7 on thread 0 and of buffer 9 on thread 1.
\<close>

definition colliding_last_use :: "(int \<times> (int \<times> int) list) list" where
  "colliding_last_use = [(0, [(7, 3)]), (1, [(9, 3)])]"

definition colliding_reason :: "(int \<times> (int \<times> string) list) list" where
  "colliding_reason = [(0, [(7, ''glDrawArrays'')]), (1, [(9, ''glDrawElements'')])]"

text \<open>The surroundings of a run whose first pass finds the colliding tables.\<close>

definition colliding_env :: env where
  "colliding_env =
     sample_env
       \<lparr>open_pass1 := (\<lambda>path. if path = ''in.pat''
                               then Some (sample_source
                                            \<lparr>client_side_last_use := colliding_last_use,
                                             client_side_last_use_reason := colliding_reason\<rparr>)
                               else None)\<rparr>"

section \<open>Properties\<close>

subsection \<open>Runs\<close>

lemma before_emit [simp]: "before (emit es) q = (es @ fst q, snd q)"
  by (cases q) (simp add: before_def emit_def)

lemma before_finish [simp]: "before (finish x) q = (([], Inl x) :: 'a run)"
  by (simp add: before_def finish_def)

lemma finish_simps [simp]: "fst (finish x) = []" "snd (finish x) = Inl x"
  by (simp_all add: finish_def)

lemma ret_simps [simp]: "fst (ret x) = []" "snd (ret x) = Inr x"
  by (simp_all add: ret_def)

lemma and_then_ret [simp]: "and_then (ret x) f = f x"
  by (cases "f x") (simp add: ret_def)

lemma and_then_finish [simp]: "and_then (finish x) f = finish x"
  by (simp add: finish_def)

lemma and_then_Inr: "snd p = Inr x \<Longrightarrow> and_then p f = (fst p @ fst (f x), snd (f x))"
  by (cases p; cases "f x") simp

lemma and_then_Inl: "snd p = Inl x \<Longrightarrow> and_then p f = (fst p, Inl x)"
  by (cases p) simp

lemma before_Inr: "snd p = Inr x \<Longrightarrow> before p q = (fst p @ fst q, snd q)"
  by (simp add: before_def and_then_Inr)

lemma before_Inl: "snd p = Inl x \<Longrightarrow> before p q = (fst p, Inl x)"
  by (simp add: before_def and_then_Inl)

lemma writeout_fits: "length (ser c) \<le> WRITE_BUF_LEN \<Longrightarrow> writeout ser c = ([Write c (ser c)], Inr ())"
  by (simp add: writeout_def emit_def)

lemma writeout_over: "\<not> length (ser c) \<le> WRITE_BUF_LEN \<Longrightarrow> writeout ser c = ([], Inl Buffer_overrun)"
  by (simp add: writeout_def finish_def)

lemma writeout_cases: "writeout ser c = ([Write c (ser c)], Inr ()) \<or> writeout ser c = ([], Inl Buffer_overrun)"
  by (simp add: writeout_def emit_def finish_def Let_def)


subsection \<open>The second loop\<close>

lemma rewrite_Nil: "rewrite ser m [] n = ([NextCall None], Inr n)"
  by (simp add: ret_def)

lemma rewrite_Cons_over:
  "\<not> length (ser c) \<le> WRITE_BUF_LEN \<Longrightarrow>
   rewrite ser m (c # cs) n = ([NextCall (Some c)], Inl Buffer_overrun)"
  by (simp add: writeout_over before_Inl)

lemma rewrite_Cons_miss:
  "length (ser c) \<le> WRITE_BUF_LEN \<Longrightarrow> m (mCallNo c) = None \<Longrightarrow>
   rewrite ser m (c # cs) n =
     (NextCall (Some c) # Write c (ser c) # fst (rewrite ser m cs n), snd (rewrite ser m cs n))"
  by (simp add: writeout_fits before_Inr)

lemma rewrite_Cons_hit_over:
  "length (ser c) \<le> WRITE_BUF_LEN \<Longrightarrow> m (mCallNo c) = Some b \<Longrightarrow>
   \<not> length (ser (deletion m c)) \<le> WRITE_BUF_LEN \<Longrightarrow>
   rewrite ser m (c # cs) n = ([NextCall (Some c), Write c (ser c)], Inl Buffer_overrun)"
  by (simp add: writeout_fits writeout_over before_Inr before_Inl)

lemma rewrite_Cons_hit:
  "length (ser c) \<le> WRITE_BUF_LEN \<Longrightarrow> m (mCallNo c) = Some b \<Longrightarrow>
   length (ser (deletion m c)) \<le> WRITE_BUF_LEN \<Longrightarrow>
   rewrite ser m (c # cs) n =
     (NextCall (Some c) # Write c (ser c) # Write (deletion m c) (ser (deletion m c)) #
        fst (rewrite ser m cs (n + 1)),
      snd (rewrite ser m cs (n + 1)))"
  by (simp add: writeout_fits before_Inr)

declare rewrite.simps [simp del]

lemma rewrite_nonempty: "fst (rewrite ser m cs n) \<noteq> []"
  by (cases cs) (simp_all add: rewrite.simps)

lemma rewrite_starts:
  "\<exists>es. fst (rewrite ser m cs n) = NextCall (case cs of [] \<Rightarrow> None | c # _ \<Rightarrow> Some c) # es"
  by (cases cs) (simp_all add: rewrite.simps)

lemma deletion_eq:
  "m (mCallNo r) = Some b \<Longrightarrow>
   deletion m r = \<lparr>mCallNo = 0, mTid = mTid r, mCallName = ''glDeleteClientSideBuffer'', mArgs = [Int_Type b]\<rparr>"
  by (simp add: deletion_def CallTM_named_def subscript_def)

lemma rewrite_append:
  "snd (rewrite ser m pre n) = Inr j \<Longrightarrow>
   rewrite ser m (pre @ post) n =
     (butlast (fst (rewrite ser m pre n)) @ fst (rewrite ser m post j), snd (rewrite ser m post j))"
proof (induction pre arbitrary: n)
  case Nil
  then show ?case by (simp add: rewrite_Nil)
next
  case (Cons c pre)
  show ?case
  proof (cases "length (ser c) \<le> WRITE_BUF_LEN")
    case False
    with Cons.prems show ?thesis by (simp add: rewrite_Cons_over)
  next
    case fits: True
    show ?thesis
    proof (cases "m (mCallNo c)")
      case None
      with fits Cons.prems have "snd (rewrite ser m pre n) = Inr j"
        by (simp add: rewrite_Cons_miss)
      from Cons.IH [OF this] None fits show ?thesis
        by (simp add: rewrite_Cons_miss rewrite_nonempty)
    next
      case (Some b)
      show ?thesis
      proof (cases "length (ser (deletion m c)) \<le> WRITE_BUF_LEN")
        case False
        with Cons.prems Some fits show ?thesis by (simp add: rewrite_Cons_hit_over)
      next
        case True
        with fits Some Cons.prems have "snd (rewrite ser m pre (n + 1)) = Inr j"
          by (simp add: rewrite_Cons_hit)
        from Cons.IH [OF this] Some fits True show ?thesis
          by (simp add: rewrite_Cons_hit rewrite_nonempty)
      qed
    qed
  qed
qed

lemmas sample_simps =
  sample_Serialize_def sample_call_def sample_calls_def sample_map_def
  rewrite.simps writeout_def before_def emit_def ret_def finish_def Let_def WRITE_BUF_LEN_def
  deletion_def CallTM_named_def subscript_def dec_def dec_nat.simps digit_def

subsection \<open>The option loop\<close>

lemma options_Inr_log: "options ver args i d = (es, Inr x) \<Longrightarrow> es = []"
  by (induction ver args i d rule: options.induct)
     (auto simp: ret_def printHelp_def printVersion_def split: if_splits)

lemma options_positional:
  "positional p \<Longrightarrow> options ver (p # rest) i d = ([], Inr (i, d))"
  by (simp add: ret_def positional_def)




lemma options_d: "options ver (''-d'' # rest) i d = options ver rest (i + 1) True"
  by simp

declare options.simps(2) [simp del]

lemma options_dashes:
  "options ver (replicate k ''-d'' @ rest) i d = options ver rest (i + k) (d \<or> 0 < k)"
  by (induction k arbitrary: i d) (simp_all add: options_d)

lemma main_stopped:
  "options (PATRACE_VERSION e) (drop 1 argv) 1 False = (es, Inl x) \<Longrightarrow> main e argv = (es, Inl x)"
  by (simp add: main_def)

lemma main_too_few:
  "options (PATRACE_VERSION e) (drop 1 argv) 1 False = ([], Inr (i, d)) \<Longrightarrow> length argv < i + 2 \<Longrightarrow>
   main e argv = ([Stdout help_text], Inl (Exit 1))"
  by (simp add: main_def printHelp_def)

lemma main_transform:
  "options (PATRACE_VERSION e) (drop 1 argv) 1 False = ([], Inr (i, d)) \<Longrightarrow> i + 2 \<le> length argv \<Longrightarrow>
   main e argv = transform e argv i"
  by (cases "transform e argv i") (simp add: main_def)

lemma drain_eq: "drain cs = (map (\<lambda>c. NextCall (Some c)) cs @ [NextCall None], Inr ())"
proof (induction cs)
  case Nil
  show ?case by (simp add: emit_def)
next
  case (Cons c cs)
  then show ?case by simp
qed

lemma transform_open1_fails:
  "open_pass1 e (argv ! i) = None \<Longrightarrow>
   transform e argv i =
     ([NewParseInterface True, SetQuickMode True, SetScreenshots False,
       OpenSource (argv ! i) False,
       Stderr (''Failed to open for reading: '' @ argv ! i @ endl)], Inl (Exit 1))"
  by (simp add: transform_def Let_def)

lemma transform_output_fails:
  "open_pass1 e (argv ! i) = Some s1 \<Longrightarrow> \<not> open_output e (argv ! (i + 1)) \<Longrightarrow>
   transform e argv i =
     ([NewParseInterface True, SetQuickMode True, SetScreenshots False,
       OpenSource (argv ! i) True, OpenOutput (argv ! (i + 1)) False,
       Stderr (''Failed to open for writing: '' @ argv ! (i + 1) @ endl)], Inl (Exit 1))"
  by (simp add: transform_def Let_def)

lemma transform_passes:
  "open_pass1 e (argv ! i) = Some s1 \<Longrightarrow> open_output e (argv ! (i + 1)) \<Longrightarrow>
   transform e argv i =
     ([NewParseInterface True, SetQuickMode True, SetScreenshots False,
       OpenSource (argv ! i) True, OpenOutput (argv ! (i + 1)) True,
       SetJsonLength (length (json_header e (argv ! i) s1)),
       WriteHeader (json_header e (argv ! i) s1) (length (json_header e (argv ! i) s1))] @
      fst (passes e (argv ! i) s1),
      snd (passes e (argv ! i) s1))"
  by (simp add: transform_def write_header_def Let_def json_header_def)

lemma passes_open2_fails:
  "open_pass2 e src = None \<Longrightarrow>
   passes e src s1 =
     (map (\<lambda>c. NextCall (Some c)) (calls s1) @
      [NextCall None, CloseSource, DeleteParseInterface, NewParseInterface True,
       OpenSource src False, Stderr (''Failed to open for reading again: '' @ src @ endl)],
      Inl (Exit 1))"
  by (simp add: passes_def drain_eq before_Inr)

lemma passes_flatten_stops:
  "open_pass2 e src = Some s2 \<Longrightarrow>
   snd (flatten (client_side_last_use_reason s1) (client_side_last_use s1) Map.empty) = Inl x \<Longrightarrow>
   passes e src s1 =
     (map (\<lambda>c. NextCall (Some c)) (calls s1) @
      [NextCall None, CloseSource, DeleteParseInterface, NewParseInterface True,
       OpenSource src True] @
      fst (flatten (client_side_last_use_reason s1) (client_side_last_use s1) Map.empty),
      Inl x)"
  by (simp add: passes_def drain_eq before_Inr and_then_Inl)

lemma passes_rewrite_stops:
  "open_pass2 e src = Some s2 \<Longrightarrow>
   snd (flatten (client_side_last_use_reason s1) (client_side_last_use s1) Map.empty) = Inr m \<Longrightarrow>
   snd (rewrite (Serialize e) m (calls s2) 0) = Inl x \<Longrightarrow>
   passes e src s1 =
     (map (\<lambda>c. NextCall (Some c)) (calls s1) @
      [NextCall None, CloseSource, DeleteParseInterface, NewParseInterface True,
       OpenSource src True] @
      fst (flatten (client_side_last_use_reason s1) (client_side_last_use s1) Map.empty) @
      fst (rewrite (Serialize e) m (calls s2) 0),
      Inl x)"
  by (simp add: passes_def drain_eq before_Inr and_then_Inl and_then_Inr)

lemma passes_completes:
  "open_pass2 e src = Some s2 \<Longrightarrow>
   snd (flatten (client_side_last_use_reason s1) (client_side_last_use s1) Map.empty) = Inr m \<Longrightarrow>
   snd (rewrite (Serialize e) m (calls s2) 0) = Inr k \<Longrightarrow>
   passes e src s1 =
     (map (\<lambda>c. NextCall (Some c)) (calls s1) @
      [NextCall None, CloseSource, DeleteParseInterface, NewParseInterface True,
       OpenSource src True] @
      fst (flatten (client_side_last_use_reason s1) (client_side_last_use s1) Map.empty) @
      fst (rewrite (Serialize e) m (calls s2) 0) @
      [CloseSource, CloseOutput, Stdout (''Injected '' @ dec k @ '' deletion calls'' @ endl)],
      Inl (Exit 0))"
  by (simp add: passes_def drain_eq before_Inr and_then_Inl and_then_Inr finish_def)


subsection \<open>Logs of the passes\<close>

lemma at_cases:
  "at xs k = finish Uncaught_out_of_range \<or> (\<exists>v. at xs k = ret v)"
  by (auto simp: at_def split: option.splits)

lemma flatten_pairs_log:
  "set (fst (flatten_pairs rs tid ps m)) \<subseteq> range DbgLog"
proof (induction ps arbitrary: m)
  case Nil
  show ?case by simp
next
  case (Cons p ps)
  obtain cs callno where p: "p = (cs, callno)" by (cases p)
  note IH = Cons.IH [of "m(callno \<mapsto> cs)"]
  from at_cases [of rs tid] show ?case
  proof
    assume "at rs tid = finish Uncaught_out_of_range"
    then show ?thesis by (simp add: p)
  next
    assume "\<exists>v. at rs tid = ret v"
    then obtain r where r: "at rs tid = ret r" ..
    from at_cases [of r cs] show ?thesis
    proof
      assume "at r cs = finish Uncaught_out_of_range"
      then show ?thesis by (simp add: p r)
    next
      assume "\<exists>v. at r cs = ret v"
      then obtain reason where "at r cs = ret reason" ..
      then show ?thesis by (simp add: p r IH)
    qed
  qed
qed

lemma flatten_log:
  "set (fst (flatten rs lu m)) \<subseteq> range Stdout \<union> range DbgLog"
proof (induction lu arbitrary: m)
  case Nil
  show ?case by simp
next
  case (Cons t lu)
  obtain tid ps where t: "t = (tid, ps)" by (cases t)
  show ?case
  proof (cases "snd (flatten_pairs rs tid ps m)")
    case (Inl x)
    then show ?thesis
      using flatten_pairs_log [of rs tid ps m] by (auto simp: t and_then_Inl)
  next
    case (Inr m')
    then show ?thesis
      using flatten_pairs_log [of rs tid ps m] Cons.IH [of m'] by (auto simp: t and_then_Inr)
  qed
qed

lemma flatten_no_Write: "ev \<in> set (fst (flatten rs lu m)) \<Longrightarrow> \<not> is_Write ev"
  using flatten_log [of rs lu m] by (auto simp: is_Write_def)

lemma synthetic_no_Write_prefix:
  "\<forall>ev\<in>set es. \<not> is_Write ev \<Longrightarrow>
   synthetic p (es @ es') = synthetic (if es = [] then p else None) es'"
proof (induction es arbitrary: p)
  case Nil
  show ?case by simp
next
  case (Cons a es)
  then show ?case by (cases a) (simp_all add: is_Write_def)
qed

lemma synthetic_no_Write: "\<forall>ev\<in>set es. \<not> is_Write ev \<Longrightarrow> synthetic p es = []"
  using synthetic_no_Write_prefix [of es p "[]"] by simp

lemma synthetic_no_Write_suffix:
  "\<forall>ev\<in>set es'. \<not> is_Write ev \<Longrightarrow> synthetic p (es @ es') = synthetic p es"
proof (induction es arbitrary: p)
  case Nil
  then show ?case by (simp add: synthetic_no_Write)
next
  case (Cons a es)
  then show ?case by (cases a; cases p) simp_all
qed

lemma synthetic_rewrite_prev:
  "synthetic (Some r) (fst (rewrite ser m cs n)) = synthetic None (fst (rewrite ser m cs n))"
  using rewrite_starts [of ser m cs n] by auto


lemma main_completes:
  assumes "snd (options (PATRACE_VERSION e) (drop 1 argv) 1 False) = Inr (i, d)"
    and "i + 2 \<le> length argv"
    and "open_pass1 e (argv ! i) = Some s1"
    and "open_output e (argv ! (i + 1))"
    and "open_pass2 e (argv ! i) = Some s2"
    and "snd (flatten (client_side_last_use_reason s1) (client_side_last_use s1) Map.empty) = Inr m"
    and "snd (rewrite (Serialize e) m (calls s2) 0) = Inr n"
  shows "main e argv =
     ([NewParseInterface True, SetQuickMode True, SetScreenshots False,
       OpenSource (argv ! i) True, OpenOutput (argv ! (i + 1)) True,
       SetJsonLength (length (json_header e (argv ! i) s1)),
       WriteHeader (json_header e (argv ! i) s1) (length (json_header e (argv ! i) s1))] @
      map (\<lambda>c. NextCall (Some c)) (calls s1) @
      [NextCall None, CloseSource, DeleteParseInterface, NewParseInterface True,
       OpenSource (argv ! i) True] @
      fst (flatten (client_side_last_use_reason s1) (client_side_last_use s1) Map.empty) @
      fst (rewrite (Serialize e) m (calls s2) 0) @
      [CloseSource, CloseOutput, Stdout (''Injected '' @ dec n @ '' deletion calls'' @ endl)],
      Inl (Exit 0))"
proof -
  obtain es where "options (PATRACE_VERSION e) (drop 1 argv) 1 False = (es, Inr (i, d))"
    using assms(1) by (cases "options (PATRACE_VERSION e) (drop 1 argv) 1 False") simp
  with options_Inr_log have "options (PATRACE_VERSION e) (drop 1 argv) 1 False = ([], Inr (i, d))"
    by blast
  from main_transform [OF this assms(2)] show ?thesis
    by (simp add: transform_passes [OF assms(3,4)] passes_completes [OF assms(5,6,7)])
qed

subsection \<open>The command line\<close>

lemma options_Inr:
  "snd (options ver args i d) = Inr x \<Longrightarrow> options ver args i d = ([], Inr x)"
  using options_Inr_log [of ver args i d "fst (options ver args i d)" x]
  by (cases "options ver args i d") simp

lemma main_dashes_positional:
  "positional p \<Longrightarrow>
   options (PATRACE_VERSION e) (drop 1 (prog # replicate k ''-d'' @ p # rest)) 1 False =
     ([], Inr (1 + k, 0 < k))"
  by (simp add: options_dashes options_positional)



subsection \<open>Files, header and parser settings\<close>

lemma rewrite_log:
  "set (fst (rewrite ser m cs n)) \<subseteq> range NextCall \<union> range (\<lambda>(c, bytes). Write c bytes)"
proof (induction cs arbitrary: n)
  case Nil
  show ?case by (simp add: rewrite_Nil)
next
  case (Cons c cs)
  show ?case
  proof (cases "length (ser c) \<le> WRITE_BUF_LEN")
    case False
    then show ?thesis by (simp add: rewrite_Cons_over)
  next
    case fits: True
    show ?thesis
    proof (cases "m (mCallNo c)")
      case None
      with fits Cons.IH [of n] show ?thesis
        by (auto simp: rewrite_Cons_miss)
    next
      case (Some b)
      show ?thesis
      proof (cases "length (ser (deletion m c)) \<le> WRITE_BUF_LEN")
        case False
        with Some fits show ?thesis by (auto simp: rewrite_Cons_hit_over)
      next
        case True
        with fits Some Cons.IH [of "n + 1"] show ?thesis
          by (auto simp: rewrite_Cons_hit)
      qed
    qed
  qed
qed

lemma passes_log:
  "\<exists>rest. fst (passes e src s1) =
      map (\<lambda>c. NextCall (Some c)) (calls s1) @
      [NextCall None, CloseSource, DeleteParseInterface, NewParseInterface True,
       OpenSource src (open_pass2 e src \<noteq> None)] @ rest
    \<and> (\<forall>ev\<in>set rest. \<not> touches_parser ev \<and> \<not> is_header_event ev)"
proof (cases "open_pass2 e src")
  case None
  then show ?thesis
    by (simp add: passes_open2_fails touches_parser_def is_header_event_def)
next
  case (Some s2)
  let ?fl = "flatten (client_side_last_use_reason s1) (client_side_last_use s1) Map.empty"
  have fl: "\<forall>ev\<in>set (fst ?fl). \<not> touches_parser ev \<and> \<not> is_header_event ev"
    using flatten_log [of "client_side_last_use_reason s1" "client_side_last_use s1" Map.empty]
    by (auto simp: touches_parser_def is_header_event_def)
  have rw: "\<forall>ev\<in>set (fst (rewrite (Serialize e) m (calls s2) 0)).
      \<not> touches_parser ev \<and> \<not> is_header_event ev" for m
    using rewrite_log [of "Serialize e" m "calls s2" 0]
    by (auto simp: touches_parser_def is_header_event_def)
  show ?thesis
  proof (cases "snd ?fl")
    case (Inl x)
    from passes_flatten_stops [OF Some Inl] fl Some show ?thesis by simp
  next
    case (Inr m)
    show ?thesis
    proof (cases "snd (rewrite (Serialize e) m (calls s2) 0)")
      case (Inl x)
      from passes_rewrite_stops [OF Some Inr Inl] fl rw [of m] Some show ?thesis
        by (simp add: ball_Un)
    next
      case (Inr n)
      from passes_completes [OF Some \<open>snd ?fl = Inr m\<close> Inr] fl rw [of m] Some show ?thesis
        by (simp add: ball_Un touches_parser_def is_header_event_def)
    qed
  qed
qed

lemma main_reaches_passes:
  assumes "snd (options (PATRACE_VERSION e) (drop 1 argv) 1 False) = Inr (i, d)"
    and "i + 2 \<le> length argv"
    and "open_pass1 e (argv ! i) = Some s1"
    and "open_output e (argv ! (i + 1))"
  shows "main e argv =
     ([NewParseInterface True, SetQuickMode True, SetScreenshots False,
       OpenSource (argv ! i) True, OpenOutput (argv ! (i + 1)) True,
       SetJsonLength (length (json_header e (argv ! i) s1)),
       WriteHeader (json_header e (argv ! i) s1) (length (json_header e (argv ! i) s1))] @
      fst (passes e (argv ! i) s1),
      snd (passes e (argv ! i) s1))"
  using main_transform [OF options_Inr [OF assms(1)] assms(2)]
  by (simp add: transform_passes [OF assms(3,4)])

text \<open>
  C7. When the source does not open for the first pass, when the destination does not
  open, or when the source does not open again for the second pass, the last event of
  the run is a message on standard error that names the path, and the exit code is 1.
\<close>

theorem main_open_failures:
  assumes "snd (options (PATRACE_VERSION e) (drop 1 argv) 1 False) = Inr (i, d)"
    and "i + 2 \<le> length argv"
  shows "(open_pass1 e (argv ! i) = None \<longrightarrow>
          main e argv =
            ([NewParseInterface True, SetQuickMode True, SetScreenshots False,
              OpenSource (argv ! i) False,
              Stderr (''Failed to open for reading: '' @ argv ! i @ endl)], Inl (Exit 1)))
       \<and> (open_pass1 e (argv ! i) = Some s1 \<and> \<not> open_output e (argv ! (i + 1)) \<longrightarrow>
          main e argv =
            ([NewParseInterface True, SetQuickMode True, SetScreenshots False,
              OpenSource (argv ! i) True, OpenOutput (argv ! (i + 1)) False,
              Stderr (''Failed to open for writing: '' @ argv ! (i + 1) @ endl)], Inl (Exit 1)))
       \<and> (open_pass1 e (argv ! i) = Some s1 \<and> open_output e (argv ! (i + 1)) \<and>
          open_pass2 e (argv ! i) = None \<longrightarrow>
          main e argv =
            ([NewParseInterface True, SetQuickMode True, SetScreenshots False,
              OpenSource (argv ! i) True, OpenOutput (argv ! (i + 1)) True,
              SetJsonLength (length (json_header e (argv ! i) s1)),
              WriteHeader (json_header e (argv ! i) s1) (length (json_header e (argv ! i) s1))] @
             map (\<lambda>c. NextCall (Some c)) (calls s1) @
             [NextCall None, CloseSource, DeleteParseInterface, NewParseInterface True,
              OpenSource (argv ! i) False,
              Stderr (''Failed to open for reading again: '' @ argv ! i @ endl)], Inl (Exit 1)))"
proof -
  note tr = main_transform [OF options_Inr [OF assms(1)] assms(2)]
  show ?thesis
  proof (intro conjI impI)
    assume "open_pass1 e (argv ! i) = None"
    then show "main e argv =
            ([NewParseInterface True, SetQuickMode True, SetScreenshots False,
              OpenSource (argv ! i) False,
              Stderr (''Failed to open for reading: '' @ argv ! i @ endl)], Inl (Exit 1))"
      by (simp add: tr transform_open1_fails)
  next
    assume "open_pass1 e (argv ! i) = Some s1 \<and> \<not> open_output e (argv ! (i + 1))"
    then show "main e argv =
            ([NewParseInterface True, SetQuickMode True, SetScreenshots False,
              OpenSource (argv ! i) True, OpenOutput (argv ! (i + 1)) False,
              Stderr (''Failed to open for writing: '' @ argv ! (i + 1) @ endl)], Inl (Exit 1))"
      using transform_output_fails [of e argv i s1] by (simp add: tr)
  next
    assume h: "open_pass1 e (argv ! i) = Some s1 \<and> open_output e (argv ! (i + 1)) \<and>
          open_pass2 e (argv ! i) = None"
    then have "main e argv =
     ([NewParseInterface True, SetQuickMode True, SetScreenshots False,
       OpenSource (argv ! i) True, OpenOutput (argv ! (i + 1)) True,
       SetJsonLength (length (json_header e (argv ! i) s1)),
       WriteHeader (json_header e (argv ! i) s1) (length (json_header e (argv ! i) s1))] @
      fst (passes e (argv ! i) s1),
      snd (passes e (argv ! i) s1))"
      using assms by (intro main_reaches_passes) simp_all
    with h show "main e argv =
            ([NewParseInterface True, SetQuickMode True, SetScreenshots False,
              OpenSource (argv ! i) True, OpenOutput (argv ! (i + 1)) True,
              SetJsonLength (length (json_header e (argv ! i) s1)),
              WriteHeader (json_header e (argv ! i) s1) (length (json_header e (argv ! i) s1))] @
             map (\<lambda>c. NextCall (Some c)) (calls s1) @
             [NextCall None, CloseSource, DeleteParseInterface, NewParseInterface True,
              OpenSource (argv ! i) False,
              Stderr (''Failed to open for reading again: '' @ argv ! i @ endl)], Inl (Exit 1))"
      by (simp add: passes_open2_fails)
  qed
qed

text \<open>
  C6. Once both files are open, the header is the first thing the output receives: the
  header of the source with one more conversion entry (operation
  \<^verbatim>\<open>inject_client_side_delete\<close>, the source file name, empty info), serialized once,
  its length recorded, written once; no later event of the run sets or writes the
  header again.
\<close>

theorem main_header_written_once_first:
  assumes "snd (options (PATRACE_VERSION e) (drop 1 argv) 1 False) = Inr (i, d)"
    and "i + 2 \<le> length argv"
    and "open_pass1 e (argv ! i) = Some s1"
    and "open_output e (argv ! (i + 1))"
  shows "take 7 (fst (main e argv)) =
           [NewParseInterface True, SetQuickMode True, SetScreenshots False,
            OpenSource (argv ! i) True, OpenOutput (argv ! (i + 1)) True,
            SetJsonLength (length (json_header e (argv ! i) s1)),
            WriteHeader (json_header e (argv ! i) s1) (length (json_header e (argv ! i) s1))]
       \<and> (\<forall>ev\<in>set (drop 7 (fst (main e argv))). \<not> is_header_event ev)
       \<and> json_header e (argv ! i) s1 =
           json_write e
             ((header s1)\<lparr>conversions := conversions (header s1) @
                [\<lparr>operation = ''inject_client_side_delete'', source = argv ! i, info = []\<rparr>]\<rparr>)"
proof -
  from passes_log [of e "argv ! i" s1]
  have "\<forall>ev\<in>set (fst (passes e (argv ! i) s1)). \<not> is_header_event ev"
    by (auto simp: is_header_event_def)
  then show ?thesis
    by (simp add: main_reaches_passes [OF assms] json_header_def addConversionEntry_def)
qed

lemma opened_with_untouched:
  "\<forall>ev\<in>set es. \<not> touches_parser ev \<Longrightarrow> opened_with st (es @ es') = opened_with st es'"
  by (induction es) (auto simp: touches_parser_def split: event.splits)

text \<open>
  C10. The parser of the first pass is opened after \<^verbatim>\<open>setQuickMode(true)\<close> and
  \<^verbatim>\<open>setScreenshots(false)\<close>; the parser of the second pass is a new object that is
  opened with no setter called on it.
\<close>

theorem main_quick_mode_first_pass_only:
  assumes "snd (options (PATRACE_VERSION e) (drop 1 argv) 1 False) = Inr (i, d)"
    and "i + 2 \<le> length argv"
    and "open_pass1 e (argv ! i) = Some s1"
    and "open_output e (argv ! (i + 1))"
  shows "opened_with [] (fst (main e argv)) =
           [([SetQuickMode True, SetScreenshots False], argv ! i, True),
            ([], argv ! i, open_pass2 e (argv ! i) \<noteq> None)]"
proof -
  from passes_log [of e "argv ! i" s1] obtain rest where
    log: "fst (passes e (argv ! i) s1) =
      map (\<lambda>c. NextCall (Some c)) (calls s1) @
      [NextCall None, CloseSource, DeleteParseInterface, NewParseInterface True,
       OpenSource (argv ! i) (open_pass2 e (argv ! i) \<noteq> None)] @ rest"
    and rest: "\<forall>ev\<in>set rest. \<not> touches_parser ev"
    by blast
  have drained: "\<forall>ev\<in>set (map (\<lambda>c. NextCall (Some c)) (calls s1)). \<not> touches_parser ev"
    by (simp add: touches_parser_def)
  from opened_with_untouched [OF rest, of "[]" "[]"] have "opened_with [] rest = []"
    by simp
  then show ?thesis
    by (simp add: main_reaches_passes [OF assms] log opened_with_untouched [OF drained])
qed

text \<open>
  C9. The option loop stops at the first argument that does not begin with a dash,
  whatever follows it. That argument is the path of the source and the next one, even
  if it begins with a dash, is the path of the destination.
\<close>

theorem main_positional_after_options:
  assumes "positional p"
  shows "options (PATRACE_VERSION e) (replicate k ''-d'' @ p # q # rest) 1 False =
           ([], Inr (1 + k, 0 < k))
       \<and> take 4 (fst (main e (prog # replicate k ''-d'' @ p # q # rest))) =
           [NewParseInterface True, SetQuickMode True, SetScreenshots False,
            OpenSource p (open_pass1 e p \<noteq> None)]
       \<and> (open_pass1 e p \<noteq> None \<longrightarrow>
           fst (main e (prog # replicate k ''-d'' @ p # q # rest)) ! 4 =
             OpenOutput q (open_output e q))"
proof -
  let ?argv = "prog # replicate k ''-d'' @ p # q # rest"
  have opts: "options (PATRACE_VERSION e) (drop 1 ?argv) 1 False = ([], Inr (1 + k, 0 < k))"
    using assms by (rule main_dashes_positional)
  have len: "(1 + k) + 2 \<le> length ?argv" by simp
  have p: "?argv ! (1 + k) = p" by (simp add: nth_append)
  have q: "?argv ! (1 + k + 1) = q" by (simp add: nth_append)
  note tr = main_transform [OF opts len]
  show ?thesis
  proof (cases "open_pass1 e p")
    case None
    with transform_open1_fails [of e ?argv "1 + k"] opts show ?thesis
      by (simp add: tr nth_append)
  next
    case (Some s1)
    show ?thesis
    proof (cases "open_output e q")
      case False
      with transform_output_fails [of e ?argv "1 + k" s1] Some opts show ?thesis
        by (simp add: tr nth_append)
    next
      case True
      with transform_passes [of e ?argv "1 + k" s1] Some opts show ?thesis
        by (simp add: tr nth_append)
    qed
  qed
qed

subsection \<open>The output and the source\<close>

lemma options_log:
  "set (fst (options ver args i d)) \<subseteq> range Stdout \<union> range Stderr"
  by (induction ver args i d rule: options.induct)
     (auto simp: options.simps(2) printHelp_def printVersion_def)

lemma without_synthetic_no_Write:
  "\<forall>ev\<in>set es. \<not> is_Write ev \<Longrightarrow>
   without_synthetic w (es @ es') = es @ without_synthetic (w \<and> es = []) es'"
  by (induction es arbitrary: w) simp_all

lemma without_synthetic_rewrite:
  "snd (rewrite ser m cs n) = Inr k \<Longrightarrow> \<forall>ev\<in>set S. \<not> is_Write ev \<Longrightarrow>
   without_synthetic w (fst (rewrite ser m cs n) @ S) =
     concat (map (\<lambda>c. [NextCall (Some c), Write c (ser c)]) cs) @ [NextCall None] @ S"
proof (induction cs arbitrary: n w)
  case Nil
  then show ?case
    using without_synthetic_no_Write [of S False "[]"]
    by (simp add: rewrite_Nil is_Write_def)
next
  case (Cons c cs)
  show ?case
  proof (cases "length (ser c) \<le> WRITE_BUF_LEN")
    case False
    with Cons.prems show ?thesis by (simp add: rewrite_Cons_over)
  next
    case fits: True
    show ?thesis
    proof (cases "m (mCallNo c)")
      case None
      with fits Cons.prems have "snd (rewrite ser m cs n) = Inr k"
        by (simp add: rewrite_Cons_miss)
      from Cons.IH [OF this Cons.prems(2)] None fits show ?thesis
        by (simp add: rewrite_Cons_miss is_Write_def)
    next
      case (Some b)
      show ?thesis
      proof (cases "length (ser (deletion m c)) \<le> WRITE_BUF_LEN")
        case False
        with Cons.prems Some fits show ?thesis by (simp add: rewrite_Cons_hit_over)
      next
        case True
        with fits Some Cons.prems have "snd (rewrite ser m cs (n + 1)) = Inr k"
          by (simp add: rewrite_Cons_hit)
        from Cons.IH [OF this Cons.prems(2)] Some fits True show ?thesis
          by (simp add: rewrite_Cons_hit is_Write_def)
      qed
    qed
  qed
qed

lemma written_append: "written (es @ es') = written es @ written es'"
  by (simp add: written_def)

lemma written_no_Write: "\<forall>ev\<in>set es. \<not> is_Write ev \<Longrightarrow> written es = []"
  by (induction es) (auto simp: written_def is_Write_def split: event.splits)

lemma written_copy:
  "written (concat (map (\<lambda>c. [NextCall (Some c), Write c (ser c)]) cs)) =
     map (\<lambda>c. (c, ser c)) cs"
  by (induction cs) (simp_all add: written_def)

text \<open>
  C2. In a run that goes through both passes, the output with the synthetic deletions
  removed holds exactly the calls of the source as the second pass read them: each one
  once, the call itself (name, arguments, thread id) in its own serialization, in the
  order of the source.
\<close>

theorem main_output_without_synthetic_is_input:
  assumes "snd (options (PATRACE_VERSION e) (drop 1 argv) 1 False) = Inr (i, d)"
    and "i + 2 \<le> length argv"
    and "open_pass1 e (argv ! i) = Some s1"
    and "open_output e (argv ! (i + 1))"
    and "open_pass2 e (argv ! i) = Some s2"
    and "snd (flatten (client_side_last_use_reason s1) (client_side_last_use s1) Map.empty) = Inr m"
    and "snd (rewrite (Serialize e) m (calls s2) 0) = Inr n"
  shows "written (without_synthetic False (fst (main e argv))) =
           map (\<lambda>c. (c, Serialize e c)) (calls s2)"
proof -
  let ?P = "[NewParseInterface True, SetQuickMode True, SetScreenshots False,
       OpenSource (argv ! i) True, OpenOutput (argv ! (i + 1)) True,
       SetJsonLength (length (json_header e (argv ! i) s1)),
       WriteHeader (json_header e (argv ! i) s1) (length (json_header e (argv ! i) s1))] @
      map (\<lambda>c. NextCall (Some c)) (calls s1) @
      [NextCall None, CloseSource, DeleteParseInterface, NewParseInterface True,
       OpenSource (argv ! i) True] @
      fst (flatten (client_side_last_use_reason s1) (client_side_last_use s1) Map.empty)"
  let ?S = "[CloseSource, CloseOutput, Stdout (''Injected '' @ dec n @ '' deletion calls'' @ endl)]"
  have P: "\<forall>ev\<in>set ?P. \<not> is_Write ev"
    using flatten_no_Write [of _ "client_side_last_use_reason s1" "client_side_last_use s1" Map.empty]
    by (auto simp: is_Write_def)
  have S: "\<forall>ev\<in>set ?S. \<not> is_Write ev"
    by (simp add: is_Write_def)
  have "fst (main e argv) = ?P @ fst (rewrite (Serialize e) m (calls s2) 0) @ ?S"
    by (simp add: main_completes [OF assms])
  then have "without_synthetic False (fst (main e argv)) =
      ?P @ concat (map (\<lambda>c. [NextCall (Some c), Write c (Serialize e c)]) (calls s2)) @
      [NextCall None] @ ?S"
    by (simp only: without_synthetic_no_Write [OF P] without_synthetic_rewrite [OF assms(7) S])
  then show ?thesis
    using written_no_Write [OF P] written_no_Write [OF S]
    by (simp only: written_append written_copy) (simp add: written_def)
qed

lemma synthetic_rewrite:
  "\<forall>(r, dl)\<in>set (synthetic None (fst (rewrite ser m cs n))). dl = deletion m r"
proof (induction cs arbitrary: n)
  case Nil
  show ?case by (simp add: rewrite_Nil)
next
  case (Cons c cs)
  show ?case
  proof (cases "length (ser c) \<le> WRITE_BUF_LEN")
    case False
    then show ?thesis by (simp add: rewrite_Cons_over)
  next
    case fits: True
    show ?thesis
    proof (cases "m (mCallNo c)")
      case None
      with fits Cons.IH [of n] show ?thesis
        by (simp add: rewrite_Cons_miss synthetic_rewrite_prev)
    next
      case (Some b)
      show ?thesis
      proof (cases "length (ser (deletion m c)) \<le> WRITE_BUF_LEN")
        case False
        with Some fits show ?thesis by (simp add: rewrite_Cons_hit_over)
      next
        case True
        with fits Some Cons.IH [of "n + 1"] show ?thesis
          by (simp add: rewrite_Cons_hit)
      qed
    qed
  qed
qed

lemma passes_writes:
  "(\<forall>ev\<in>set (fst (passes e src s1)). \<not> is_Write ev) \<or>
   (\<exists>P m cs S. fst (passes e src s1) = P @ fst (rewrite (Serialize e) m cs 0) @ S \<and>
      (\<forall>ev\<in>set P. \<not> is_Write ev) \<and> (\<forall>ev\<in>set S. \<not> is_Write ev))"
proof (cases "open_pass2 e src")
  case None
  then show ?thesis by (simp add: passes_open2_fails is_Write_def)
next
  case (Some s2)
  let ?fl = "flatten (client_side_last_use_reason s1) (client_side_last_use s1) Map.empty"
  let ?P = "map (\<lambda>c. NextCall (Some c)) (calls s1) @
      [NextCall None, CloseSource, DeleteParseInterface, NewParseInterface True,
       OpenSource src True] @ fst ?fl"
  have P: "\<forall>ev\<in>set ?P. \<not> is_Write ev"
    using flatten_no_Write [of _ "client_side_last_use_reason s1" "client_side_last_use s1" Map.empty]
    by (auto simp: is_Write_def)
  show ?thesis
  proof (cases "snd ?fl")
    case (Inl x)
    from passes_flatten_stops [OF Some Inl] P show ?thesis by simp
  next
    case (Inr m)
    show ?thesis
    proof (cases "snd (rewrite (Serialize e) m (calls s2) 0)")
      case (Inl x)
      from passes_rewrite_stops [OF Some Inr Inl]
      have "fst (passes e src s1) = ?P @ fst (rewrite (Serialize e) m (calls s2) 0) @ []"
        by simp
      with P have "fst (passes e src s1) = ?P @ fst (rewrite (Serialize e) m (calls s2) 0) @ [] \<and>
          (\<forall>ev\<in>set ?P. \<not> is_Write ev) \<and> (\<forall>ev\<in>set []. \<not> is_Write ev)"
        by simp
      then show ?thesis by (intro disjI2 exI)
    next
      case (Inr n)
      let ?S = "[CloseSource, CloseOutput,
                 Stdout (''Injected '' @ dec n @ '' deletion calls'' @ endl)]"
      from passes_completes [OF Some \<open>snd ?fl = Inr m\<close> Inr]
      have "fst (passes e src s1) = ?P @ fst (rewrite (Serialize e) m (calls s2) 0) @ ?S"
        by simp
      moreover have "\<forall>ev\<in>set ?S. \<not> is_Write ev" by (simp add: is_Write_def)
      ultimately have "fst (passes e src s1) = ?P @ fst (rewrite (Serialize e) m (calls s2) 0) @ ?S \<and>
          (\<forall>ev\<in>set ?P. \<not> is_Write ev) \<and> (\<forall>ev\<in>set ?S. \<not> is_Write ev)"
        using P by simp
      then show ?thesis by (intro disjI2 exI)
    qed
  qed
qed

lemma main_writes:
  "(\<forall>ev\<in>set (fst (main e argv)). \<not> is_Write ev) \<or>
   (\<exists>P m cs S. fst (main e argv) = P @ fst (rewrite (Serialize e) m cs 0) @ S \<and>
      (\<forall>ev\<in>set P. \<not> is_Write ev) \<and> (\<forall>ev\<in>set S. \<not> is_Write ev))"
proof (cases "snd (options (PATRACE_VERSION e) (drop 1 argv) 1 False)")
  case (Inl x)
  then have "main e argv = (fst (options (PATRACE_VERSION e) (drop 1 argv) 1 False), Inl x)"
    by (intro main_stopped) (simp add: prod_eq_iff)
  then show ?thesis
    using options_log [of "PATRACE_VERSION e" "drop 1 argv" 1 False]
    by (auto simp: is_Write_def)
next
  case (Inr x)
  obtain i d where x: "x = (i, d)" by (cases x)
  note opts = options_Inr [OF Inr [unfolded x]]
  show ?thesis
  proof (cases "i + 2 \<le> length argv")
    case False
    with main_too_few [OF opts] show ?thesis by (simp add: is_Write_def)
  next
    case True
    note tr = main_transform [OF opts True]
    show ?thesis
    proof (cases "open_pass1 e (argv ! i)")
      case None
      then show ?thesis by (simp add: tr transform_open1_fails is_Write_def)
    next
      case (Some s1)
      show ?thesis
      proof (cases "open_output e (argv ! (i + 1))")
        case False
        with Some transform_output_fails [of e argv i s1] show ?thesis
          by (simp add: tr is_Write_def)
      next
        case True
        let ?H = "[NewParseInterface True, SetQuickMode True, SetScreenshots False,
          OpenSource (argv ! i) True, OpenOutput (argv ! (i + 1)) True,
          SetJsonLength (length (json_header e (argv ! i) s1)),
          WriteHeader (json_header e (argv ! i) s1) (length (json_header e (argv ! i) s1))]"
        have H: "\<forall>ev\<in>set ?H. \<not> is_Write ev" by (simp add: is_Write_def)
        have log: "fst (main e argv) = ?H @ fst (passes e (argv ! i) s1)"
          by (simp add: tr transform_passes [OF Some True])
        from passes_writes [of e "argv ! i" s1] show ?thesis
        proof
          assume "\<forall>ev\<in>set (fst (passes e (argv ! i) s1)). \<not> is_Write ev"
          with H log show ?thesis by (simp add: is_Write_def)
        next
          assume "\<exists>P m cs S. fst (passes e (argv ! i) s1) =
              P @ fst (rewrite (Serialize e) m cs 0) @ S \<and>
              (\<forall>ev\<in>set P. \<not> is_Write ev) \<and> (\<forall>ev\<in>set S. \<not> is_Write ev)"
          then obtain P m cs S where
            "fst (passes e (argv ! i) s1) = P @ fst (rewrite (Serialize e) m cs 0) @ S"
            and "\<forall>ev\<in>set P. \<not> is_Write ev" and S: "\<forall>ev\<in>set S. \<not> is_Write ev"
            by blast
          with H log have "fst (main e argv) = (?H @ P) @ fst (rewrite (Serialize e) m cs 0) @ S \<and>
              (\<forall>ev\<in>set (?H @ P). \<not> is_Write ev) \<and> (\<forall>ev\<in>set S. \<not> is_Write ev)"
            by (simp add: is_Write_def)
          then show ?thesis by (intro disjI2 exI)
        qed
      qed
    qed
  qed
qed

text \<open>
  C5. In every run, every synthetic deletion that is written has the thread id of the
  call that triggered it, the call written just before it (and it is a call named
  \<^verbatim>\<open>glDeleteClientSideBuffer\<close>).
\<close>

theorem main_deletion_on_thread_of_trigger:
  "\<forall>(r, dl)\<in>set (synthetic None (fst (main e argv))).
     mTid dl = mTid r \<and> mCallName dl = ''glDeleteClientSideBuffer''"
proof -
  from main_writes [of e argv] show ?thesis
  proof
    assume "\<forall>ev\<in>set (fst (main e argv)). \<not> is_Write ev"
    then show ?thesis by (simp add: synthetic_no_Write)
  next
    assume "\<exists>P m cs S. fst (main e argv) = P @ fst (rewrite (Serialize e) m cs 0) @ S \<and>
      (\<forall>ev\<in>set P. \<not> is_Write ev) \<and> (\<forall>ev\<in>set S. \<not> is_Write ev)"
    then obtain P m cs S where log: "fst (main e argv) = P @ fst (rewrite (Serialize e) m cs 0) @ S"
      and P: "\<forall>ev\<in>set P. \<not> is_Write ev" and S: "\<forall>ev\<in>set S. \<not> is_Write ev"
      by blast
    have "synthetic None (fst (main e argv)) = synthetic None (fst (rewrite (Serialize e) m cs 0))"
      by (simp add: log synthetic_no_Write_prefix [OF P] synthetic_no_Write_suffix [OF S])
    with synthetic_rewrite [of "Serialize e" m cs 0] show ?thesis
      by (auto simp: deletion_def CallTM_named_def)
  qed
qed

subsection \<open>The flattened map and the staging buffer\<close>

lemma flatten_pairs_Inr:
  "snd (flatten_pairs rs tid ps m) = Inr m' \<Longrightarrow>
   m' = m ++ map_of (rev (map (\<lambda>(cs, callno). (callno, cs)) ps))"
proof (induction ps arbitrary: m)
  case Nil
  then show ?case by simp
next
  case (Cons p ps)
  obtain cs callno where p: "p = (cs, callno)" by (cases p)
  from at_cases [of rs tid] show ?case
  proof
    assume "at rs tid = finish Uncaught_out_of_range"
    with Cons.prems show ?thesis by (simp add: p)
  next
    assume "\<exists>v. at rs tid = ret v"
    then obtain r where r: "at rs tid = ret r" ..
    from at_cases [of r cs] show ?thesis
    proof
      assume "at r cs = finish Uncaught_out_of_range"
      with Cons.prems show ?thesis by (simp add: p r)
    next
      assume "\<exists>v. at r cs = ret v"
      then obtain reason where reason: "at r cs = ret reason" ..
      with Cons.prems have "snd (flatten_pairs rs tid ps (m(callno \<mapsto> cs))) = Inr m'"
        by (simp add: p r)
      then have "m' = m(callno \<mapsto> cs) ++ map_of (rev (map (\<lambda>(cs, callno). (callno, cs)) ps))"
        by (rule Cons.IH)
      also have "\<dots> = m ++ map_of (rev (map (\<lambda>(cs, callno). (callno, cs)) (p # ps)))"
        by (simp add: p)
      finally show ?thesis .
    qed
  qed
qed

lemma flatten_Inr:
  "snd (flatten rs lu m) = Inr m' \<Longrightarrow> m' = m ++ map_of (rev (insertions lu))"
proof (induction lu arbitrary: m)
  case Nil
  then show ?case by (simp add: insertions_def)
next
  case (Cons t lu)
  obtain tid ps where t: "t = (tid, ps)" by (cases t)
  show ?case
  proof (cases "snd (flatten_pairs rs tid ps m)")
    case (Inl x)
    with Cons.prems show ?thesis by (simp add: t and_then_Inl)
  next
    case (Inr m1)
    with Cons.prems have "snd (flatten rs lu m1) = Inr m'"
      by (simp add: t and_then_Inr)
    from Cons.IH [OF this] flatten_pairs_Inr [OF Inr] show ?thesis
      by (simp add: t insertions_def)
  qed
qed

lemma map_of_rev_last:
  "k \<notin> fst ` set ins2 \<Longrightarrow> map_of (rev (ins1 @ (k, v) # ins2)) k = Some v"
  by (simp add: map_add_def map_of_eq_None_iff [THEN iffD2] split: option.splits)

lemma main_log_at_last_use:
  assumes "snd (options (PATRACE_VERSION e) (drop 1 argv) 1 False) = Inr (i, d)"
    and "i + 2 \<le> length argv"
    and "open_pass1 e (argv ! i) = Some s1"
    and "open_output e (argv ! (i + 1))"
    and "open_pass2 e (argv ! i) = Some s2"
    and "snd (flatten (client_side_last_use_reason s1) (client_side_last_use s1) Map.empty) = Inr m"
    and "calls s2 = pre @ r # post"
    and "snd (rewrite (Serialize e) m pre 0) = Inr j"
    and "m (mCallNo r) = Some b"
    and "length (Serialize e r) \<le> WRITE_BUF_LEN"
    and "length (Serialize e (deletion m r)) \<le> WRITE_BUF_LEN"
  shows "fst (main e argv) =
     [NewParseInterface True, SetQuickMode True, SetScreenshots False,
      OpenSource (argv ! i) True, OpenOutput (argv ! (i + 1)) True,
      SetJsonLength (length (json_header e (argv ! i) s1)),
      WriteHeader (json_header e (argv ! i) s1) (length (json_header e (argv ! i) s1))] @
     map (\<lambda>c. NextCall (Some c)) (calls s1) @
     [NextCall None, CloseSource, DeleteParseInterface, NewParseInterface True,
      OpenSource (argv ! i) True] @
     fst (flatten (client_side_last_use_reason s1) (client_side_last_use s1) Map.empty) @
     butlast (fst (rewrite (Serialize e) m pre 0)) @
     [NextCall (Some r), Write r (Serialize e r),
      Write (deletion m r) (Serialize e (deletion m r))] @
     fst (rewrite (Serialize e) m post (j + 1)) @
     (case snd (rewrite (Serialize e) m post (j + 1)) of
        Inl x \<Rightarrow> []
      | Inr n \<Rightarrow> [CloseSource, CloseOutput,
                  Stdout (''Injected '' @ dec n @ '' deletion calls'' @ endl)])"
proof -
  let ?ser = "Serialize e"
  have rw: "rewrite ?ser m (calls s2) 0 =
      (butlast (fst (rewrite ?ser m pre 0)) @
       [NextCall (Some r), Write r (?ser r), Write (deletion m r) (?ser (deletion m r))] @
       fst (rewrite ?ser m post (j + 1)),
       snd (rewrite ?ser m post (j + 1)))"
    using assms(9,10,11)
    by (simp add: assms(7) rewrite_append [OF assms(8)] rewrite_Cons_hit)
  note reach = main_reaches_passes [OF assms(1,2,3,4)]
  show ?thesis
  proof (cases "snd (rewrite ?ser m post (j + 1))")
    case (Inl x)
    with rw have "snd (rewrite ?ser m (calls s2) 0) = Inl x" by simp
    from passes_rewrite_stops [OF assms(5,6) this] show ?thesis
      by (simp add: reach rw Inl)
  next
    case (Inr n)
    with rw have "snd (rewrite ?ser m (calls s2) 0) = Inr n" by simp
    from passes_completes [OF assms(5,6) this] show ?thesis
      by (simp add: reach rw Inr)
  qed
qed

text \<open>
  C1. In a run of \<^verbatim>\<open>main\<close> that reaches the second pass with the flattened map
  \<^verbatim>\<open>m\<close>: for every call \<^verbatim>\<open>r\<close> that the second loop reads (the calls \<^verbatim>\<open>pre\<close>
  before it went through) and whose ordinal is a key of \<^verbatim>\<open>m\<close>, with buffer id
  \<^verbatim>\<open>b\<close>, when \<^verbatim>\<open>r\<close> and the deletion fit the staging buffer, the log of the run
  continues after the read of \<^verbatim>\<open>r\<close> with the write of \<^verbatim>\<open>r\<close>, then exactly one
  deletion, and then the read of the next call. The deletion is named
  \<^verbatim>\<open>glDeleteClientSideBuffer\<close> and its only argument is the integer \<^verbatim>\<open>b\<close>.
\<close>

theorem main_injects_deletion_after_last_use:
  assumes "snd (options (PATRACE_VERSION e) (drop 1 argv) 1 False) = Inr (i, d)"
    and "i + 2 \<le> length argv"
    and "open_pass1 e (argv ! i) = Some s1"
    and "open_output e (argv ! (i + 1))"
    and "open_pass2 e (argv ! i) = Some s2"
    and "snd (flatten (client_side_last_use_reason s1) (client_side_last_use s1) Map.empty) = Inr m"
    and "calls s2 = pre @ r # post"
    and "snd (rewrite (Serialize e) m pre 0) = Inr j"
    and "m (mCallNo r) = Some b"
    and "length (Serialize e r) \<le> WRITE_BUF_LEN"
    and "length (Serialize e (deletion m r)) \<le> WRITE_BUF_LEN"
  shows "fst (main e argv) =
     [NewParseInterface True, SetQuickMode True, SetScreenshots False,
      OpenSource (argv ! i) True, OpenOutput (argv ! (i + 1)) True,
      SetJsonLength (length (json_header e (argv ! i) s1)),
      WriteHeader (json_header e (argv ! i) s1) (length (json_header e (argv ! i) s1))] @
     map (\<lambda>c. NextCall (Some c)) (calls s1) @
     [NextCall None, CloseSource, DeleteParseInterface, NewParseInterface True,
      OpenSource (argv ! i) True] @
     fst (flatten (client_side_last_use_reason s1) (client_side_last_use s1) Map.empty) @
     butlast (fst (rewrite (Serialize e) m pre 0)) @
     [NextCall (Some r), Write r (Serialize e r),
      Write (deletion m r) (Serialize e (deletion m r))] @
     fst (rewrite (Serialize e) m post (j + 1)) @
     (case snd (rewrite (Serialize e) m post (j + 1)) of
        Inl x \<Rightarrow> []
      | Inr n \<Rightarrow> [CloseSource, CloseOutput,
                  Stdout (''Injected '' @ dec n @ '' deletion calls'' @ endl)])
   \<and> (\<exists>es. fst (rewrite (Serialize e) m post (j + 1)) =
            NextCall (case post of [] \<Rightarrow> None | c # _ \<Rightarrow> Some c) # es)
   \<and> deletion m r =
       \<lparr>mCallNo = 0, mTid = mTid r, mCallName = ''glDeleteClientSideBuffer'',
        mArgs = [Int_Type b]\<rparr>"
  using main_log_at_last_use [OF assms] rewrite_starts [of "Serialize e" m post "j + 1"]
    deletion_eq [of m r b, OF assms(9)]
  by blast

text \<open>
  C4. In a run of \<^verbatim>\<open>main\<close> that reaches the second pass, the map the second loop
  uses is the result of the assignments of every pair of every thread of the tables of
  the first pass, in the order of the loops, so that the last assignment of an ordinal
  is the one the map keeps; for every call of the source with that ordinal the run
  writes exactly one deletion right after the call, of the buffer id assigned last.
\<close>

theorem main_flattened_map_last_write_wins:
  assumes "snd (options (PATRACE_VERSION e) (drop 1 argv) 1 False) = Inr (i, d)"
    and "i + 2 \<le> length argv"
    and "open_pass1 e (argv ! i) = Some s1"
    and "open_output e (argv ! (i + 1))"
    and "open_pass2 e (argv ! i) = Some s2"
    and "snd (flatten (client_side_last_use_reason s1) (client_side_last_use s1) Map.empty) = Inr m"
  shows "m = map_of (rev (insertions (client_side_last_use s1)))
   \<and> (insertions (client_side_last_use s1) = ins1 @ (callno, cs) # ins2 \<and>
      callno \<notin> fst ` set ins2 \<longrightarrow>
      m callno = Some cs
    \<and> (calls s2 = pre @ r # post \<and> mCallNo r = callno \<and>
        snd (rewrite (Serialize e) m pre 0) = Inr j \<and>
        length (Serialize e r) \<le> WRITE_BUF_LEN \<and>
        length (Serialize e (deletion m r)) \<le> WRITE_BUF_LEN \<longrightarrow>
        fst (main e argv) =
          [NewParseInterface True, SetQuickMode True, SetScreenshots False,
           OpenSource (argv ! i) True, OpenOutput (argv ! (i + 1)) True,
           SetJsonLength (length (json_header e (argv ! i) s1)),
           WriteHeader (json_header e (argv ! i) s1) (length (json_header e (argv ! i) s1))] @
          map (\<lambda>c. NextCall (Some c)) (calls s1) @
          [NextCall None, CloseSource, DeleteParseInterface, NewParseInterface True,
           OpenSource (argv ! i) True] @
          fst (flatten (client_side_last_use_reason s1) (client_side_last_use s1) Map.empty) @
          butlast (fst (rewrite (Serialize e) m pre 0)) @
          [NextCall (Some r), Write r (Serialize e r),
           Write (deletion m r) (Serialize e (deletion m r))] @
          fst (rewrite (Serialize e) m post (j + 1)) @
          (case snd (rewrite (Serialize e) m post (j + 1)) of
             Inl x \<Rightarrow> []
           | Inr n \<Rightarrow> [CloseSource, CloseOutput,
                       Stdout (''Injected '' @ dec n @ '' deletion calls'' @ endl)])
      \<and> (\<exists>es. fst (rewrite (Serialize e) m post (j + 1)) =
               NextCall (case post of [] \<Rightarrow> None | c # _ \<Rightarrow> Some c) # es)
      \<and> deletion m r =
          \<lparr>mCallNo = 0, mTid = mTid r, mCallName = ''glDeleteClientSideBuffer'',
           mArgs = [Int_Type cs]\<rparr>))"
proof -
  from flatten_Inr [OF assms(6)] have m: "m = map_of (rev (insertions (client_side_last_use s1)))"
    by simp
  have last_wins: "m callno = Some cs"
    if "insertions (client_side_last_use s1) = ins1 @ (callno, cs) # ins2 \<and>
        callno \<notin> fst ` set ins2"
    using that map_of_rev_last [of callno ins2 ins1 cs] by (simp add: m)
  show ?thesis
  proof (intro conjI impI)
    show "m = map_of (rev (insertions (client_side_last_use s1)))" by (rule m)
  next
    assume "insertions (client_side_last_use s1) = ins1 @ (callno, cs) # ins2 \<and>
        callno \<notin> fst ` set ins2"
    then show "m callno = Some cs" by (rule last_wins)
  next
    assume h: "insertions (client_side_last_use s1) = ins1 @ (callno, cs) # ins2 \<and>
        callno \<notin> fst ` set ins2"
      and r: "calls s2 = pre @ r # post \<and> mCallNo r = callno \<and>
        snd (rewrite (Serialize e) m pre 0) = Inr j \<and>
        length (Serialize e r) \<le> WRITE_BUF_LEN \<and>
        length (Serialize e (deletion m r)) \<le> WRITE_BUF_LEN"
    from last_wins [OF h] r have hit: "m (mCallNo r) = Some cs" by simp
    from r have r1: "calls s2 = pre @ r # post" and r2: "snd (rewrite (Serialize e) m pre 0) = Inr j"
      and r3: "length (Serialize e r) \<le> WRITE_BUF_LEN"
      and r4: "length (Serialize e (deletion m r)) \<le> WRITE_BUF_LEN"
      by blast+
    show "fst (main e argv) =
          [NewParseInterface True, SetQuickMode True, SetScreenshots False,
           OpenSource (argv ! i) True, OpenOutput (argv ! (i + 1)) True,
           SetJsonLength (length (json_header e (argv ! i) s1)),
           WriteHeader (json_header e (argv ! i) s1) (length (json_header e (argv ! i) s1))] @
          map (\<lambda>c. NextCall (Some c)) (calls s1) @
          [NextCall None, CloseSource, DeleteParseInterface, NewParseInterface True,
           OpenSource (argv ! i) True] @
          fst (flatten (client_side_last_use_reason s1) (client_side_last_use s1) Map.empty) @
          butlast (fst (rewrite (Serialize e) m pre 0)) @
          [NextCall (Some r), Write r (Serialize e r),
           Write (deletion m r) (Serialize e (deletion m r))] @
          fst (rewrite (Serialize e) m post (j + 1)) @
          (case snd (rewrite (Serialize e) m post (j + 1)) of
             Inl x \<Rightarrow> []
           | Inr n \<Rightarrow> [CloseSource, CloseOutput,
                       Stdout (''Injected '' @ dec n @ '' deletion calls'' @ endl)])"
      by (rule main_log_at_last_use [OF assms r1 r2 hit r3 r4])
    show "\<exists>es. fst (rewrite (Serialize e) m post (j + 1)) =
               NextCall (case post of [] \<Rightarrow> None | c # _ \<Rightarrow> Some c) # es"
      by (rule rewrite_starts)
    show "deletion m r =
          \<lparr>mCallNo = 0, mTid = mTid r, mCallName = ''glDeleteClientSideBuffer'',
           mArgs = [Int_Type cs]\<rparr>"
      by (rule deletion_eq [of m r cs, OF hit])
  qed
qed

text \<open>
  C3, as amended. A call whose serialized form fits the staging buffer reaches the
  output whole. \<^verbatim>\<open>writeout\<close> writes nothing but the complete serialization of its
  call, and it never ends the run with an exit code: it has no check and no report of
  its own.
\<close>

theorem writeout_whole_without_check:
  "(length (ser c) \<le> WRITE_BUF_LEN \<longrightarrow> writeout ser c = ([Write c (ser c)], Inr ()))
   \<and> (\<forall>ev\<in>set (fst (writeout ser c)). ev = Write c (ser c))
   \<and> (\<forall>k. snd (writeout ser c) \<noteq> Inl (Exit k))"
  using writeout_cases [of ser c] by (auto simp: writeout_fits)

subsection \<open>The sample run\<close>

lemma sample_opts:
  "snd (options (PATRACE_VERSION sample_env) (drop 1 sample_argv) 1 False) = Inr (1, False)"
  by (simp add: sample_argv_def options.simps(2))

lemma sample_len: "1 + 2 \<le> length sample_argv"
  by (simp add: sample_argv_def)

lemma sample_open1: "open_pass1 sample_env (sample_argv ! 1) = Some sample_source"
  by (simp add: sample_argv_def sample_env_def)

lemma sample_out: "open_output sample_env (sample_argv ! (1 + 1))"
  by (simp add: sample_argv_def sample_env_def)

lemma sample_open2: "open_pass2 sample_env (sample_argv ! 1) = Some sample_source"
  by (simp add: sample_argv_def sample_env_def)

lemma sample_flatten:
  "flatten (client_side_last_use_reason sample_source) (client_side_last_use sample_source)
     Map.empty =
     ([Stdout (''Thread 0 has 1 cs:call pairs'' @ endl),
       DbgLog (tab @ ''t0 cs7 call3 endpoint=glDrawArrays'' @ endl),
       Stdout (''Thread 1 has 1 cs:call pairs'' @ endl),
       DbgLog (tab @ ''t1 cs9 call11 endpoint=glDrawArrays'' @ endl)],
      Inr sample_map)"
  by (simp add: sample_source_def sample_map_def at_def ret_def before_def emit_def
      dec_def dec_nat.simps digit_def)

lemma sample_calls_eq:
  "sample_calls =
     [sample_call 1 0, sample_call 2 0, sample_call 3 0, sample_call 4 0, sample_call 5 0,
      sample_call 10 1, sample_call 11 1, sample_call 12 1]"
  by (simp add: sample_calls_def)

lemma sample_rewrite:
  "rewrite sample_Serialize sample_map sample_calls 0 =
     ([NextCall (Some (sample_call 1 0)), Write (sample_call 1 0) ''glDrawArrays1'',
       NextCall (Some (sample_call 2 0)), Write (sample_call 2 0) ''glDrawArrays2'',
       NextCall (Some (sample_call 3 0)), Write (sample_call 3 0) ''glDrawArrays3'',
       Write (sample_deletion 7 0) ''glDeleteClientSideBuffer7'',
       NextCall (Some (sample_call 4 0)), Write (sample_call 4 0) ''glDrawArrays4'',
       NextCall (Some (sample_call 5 0)), Write (sample_call 5 0) ''glDrawArrays5'',
       NextCall (Some (sample_call 10 1)), Write (sample_call 10 1) ''glDrawArrays10'',
       NextCall (Some (sample_call 11 1)), Write (sample_call 11 1) ''glDrawArrays11'',
       Write (sample_deletion 9 1) ''glDeleteClientSideBuffer9'',
       NextCall (Some (sample_call 12 1)), Write (sample_call 12 1) ''glDrawArrays12'',
       NextCall None],
      Inr 2)"
  by (simp add: sample_simps sample_deletion_def)

lemma sample_rewrite_env:
  "snd (rewrite (Serialize sample_env) sample_map (calls sample_source) 0) = Inr 2"
  by (simp add: sample_env_def sample_source_def sample_rewrite)

lemma sample_flatten_snd:
  "snd (flatten (client_side_last_use_reason sample_source) (client_side_last_use sample_source)
     Map.empty) = Inr sample_map"
  by (simp add: sample_flatten)

lemma sample_main:
  "main sample_env sample_argv =
     ([NewParseInterface True, SetQuickMode True, SetScreenshots False,
       OpenSource ''in.pat'' True, OpenOutput ''out.pat'' True,
       SetJsonLength 35, WriteHeader ''{} inject_client_side_delete:in.pat'' 35] @
      map (\<lambda>c. NextCall (Some c)) sample_calls @
      [NextCall None, CloseSource, DeleteParseInterface, NewParseInterface True,
       OpenSource ''in.pat'' True] @
      fst (flatten (client_side_last_use_reason sample_source)
             (client_side_last_use sample_source) Map.empty) @
      fst (rewrite sample_Serialize sample_map sample_calls 0) @
      [CloseSource, CloseOutput, Stdout (''Injected 2 deletion calls'' @ endl)],
      Inl (Exit 0))"
proof -
  have js: "json_header sample_env ''in.pat'' sample_source = ''{} inject_client_side_delete:in.pat''"
    by (simp add: json_header_def sample_env_def sample_source_def sample_json_write_def
        addConversionEntry_def)
  have argv: "sample_argv ! 1 = ''in.pat''" "sample_argv ! (1 + 1) = ''out.pat''"
    by (simp_all add: sample_argv_def)
  have env: "Serialize sample_env = sample_Serialize" "calls sample_source = sample_calls"
    by (simp_all add: sample_env_def sample_source_def)
  have two: "dec 2 = ''2''"
    by (simp add: dec_def dec_nat.simps digit_def)
  show ?thesis
    using main_completes [OF sample_opts sample_len sample_open1 sample_out sample_open2
        sample_flatten_snd sample_rewrite_env]
    by (simp only: js argv env two) simp
qed

theorem main_output_without_synthetic_is_input_witness:
  "written (without_synthetic False (fst (main sample_env sample_argv))) =
     [(sample_call 1 0, ''glDrawArrays1''), (sample_call 2 0, ''glDrawArrays2''),
      (sample_call 3 0, ''glDrawArrays3''), (sample_call 4 0, ''glDrawArrays4''),
      (sample_call 5 0, ''glDrawArrays5''), (sample_call 10 1, ''glDrawArrays10''),
      (sample_call 11 1, ''glDrawArrays11''), (sample_call 12 1, ''glDrawArrays12'')]"
proof -
  have "map (\<lambda>c. (c, Serialize sample_env c)) (calls sample_source) =
     [(sample_call 1 0, ''glDrawArrays1''), (sample_call 2 0, ''glDrawArrays2''),
      (sample_call 3 0, ''glDrawArrays3''), (sample_call 4 0, ''glDrawArrays4''),
      (sample_call 5 0, ''glDrawArrays5''), (sample_call 10 1, ''glDrawArrays10''),
      (sample_call 11 1, ''glDrawArrays11''), (sample_call 12 1, ''glDrawArrays12'')]"
    by (simp add: sample_env_def sample_source_def sample_calls_def sample_Serialize_def
        sample_call_def dec_def dec_nat.simps digit_def)
  with main_output_without_synthetic_is_input [OF sample_opts sample_len sample_open1
      sample_out sample_open2 sample_flatten_snd sample_rewrite_env]
  show ?thesis by simp
qed

lemma sample_synthetic:
  "synthetic None (fst (main sample_env sample_argv)) =
     [(sample_call 3 0, sample_deletion 7 0), (sample_call 11 1, sample_deletion 9 1)]"
  by (simp add: sample_main sample_flatten sample_rewrite [unfolded sample_calls_eq]
      sample_calls_eq)

theorem main_deletion_on_thread_of_trigger_witness:
  "(sample_call 11 1, sample_deletion 9 1) \<in>
     set (synthetic None (fst (main sample_env sample_argv)))
   \<and> mTid (sample_deletion 9 1) = mTid (sample_call 11 1)"
proof -
  have mem: "(sample_call 11 1, sample_deletion 9 1) \<in>
      set (synthetic None (fst (main sample_env sample_argv)))"
    by (simp add: sample_synthetic)
  with main_deletion_on_thread_of_trigger [of sample_env sample_argv]
  have "mTid (sample_deletion 9 1) = mTid (sample_call 11 1)"
    by blast
  with mem show ?thesis by simp
qed

theorem writeout_whole_without_check_witness:
  "writeout sample_Serialize (sample_call 3 0) =
     ([Write (sample_call 3 0) ''glDrawArrays3''], Inr ())"
proof -
  have bytes: "sample_Serialize (sample_call 3 0) = ''glDrawArrays3''"
    by (simp add: sample_Serialize_def sample_call_def dec_def dec_nat.simps digit_def)
  have fits: "length (sample_Serialize (sample_call 3 0)) \<le> WRITE_BUF_LEN"
    by (simp add: bytes WRITE_BUF_LEN_def)
  from writeout_whole_without_check [of sample_Serialize "sample_call 3 0",
      THEN conjunct1, rule_format, OF fits]
  show ?thesis by (simp only: bytes)
qed

lemma big_call_length: "length (sample_Serialize big_call) = 13 + WRITE_BUF_LEN"
  by (simp add: sample_Serialize_def big_call_def)

text \<open>
  C3 as stated fails: on a trace whose call serializes to more bytes than the staging
  buffer holds, the run ends in the overrun of the buffer, with no message on standard
  error and no exit code.
\<close>

theorem writeout_overrun_counterexample:
  "WRITE_BUF_LEN < length (Serialize big_env big_call)
   \<and> main big_env sample_argv =
       ([NewParseInterface True, SetQuickMode True, SetScreenshots False,
         OpenSource ''in.pat'' True, OpenOutput ''out.pat'' True,
         SetJsonLength 35, WriteHeader ''{} inject_client_side_delete:in.pat'' 35,
         NextCall (Some big_call), NextCall None,
         CloseSource, DeleteParseInterface, NewParseInterface True,
         OpenSource ''in.pat'' True,
         NextCall (Some big_call)],
        Inl Buffer_overrun)"
proof -
  let ?s1 = "sample_source\<lparr>calls := [big_call], client_side_last_use := [],
               client_side_last_use_reason := []\<rparr>"
  let ?s2 = "sample_source\<lparr>calls := [big_call]\<rparr>"
  have ser: "Serialize big_env = sample_Serialize"
    by (simp add: big_env_def sample_env_def)
  have over: "\<not> length (Serialize big_env big_call) \<le> WRITE_BUF_LEN"
    by (simp add: ser big_call_length)
  have opts: "snd (options (PATRACE_VERSION big_env) (drop 1 sample_argv) 1 False) = Inr (1, False)"
    by (simp add: sample_argv_def options.simps(2))
  have o1: "open_pass1 big_env (sample_argv ! 1) = Some ?s1"
    by (simp add: big_env_def)
  have out: "open_output big_env (sample_argv ! (1 + 1))"
    by (simp add: big_env_def sample_env_def sample_argv_def)
  have o2: "open_pass2 big_env (sample_argv ! 1) = Some ?s2"
    by (simp add: big_env_def)
  have fl: "flatten (client_side_last_use_reason ?s1) (client_side_last_use ?s1) Map.empty =
      ([], Inr Map.empty)"
    by (simp add: ret_def)
  have rw: "rewrite (Serialize big_env) Map.empty [big_call] 0 =
      ([NextCall (Some big_call)], Inl Buffer_overrun)"
    using over by (simp add: rewrite_Cons_over)
  have js: "json_header big_env ''in.pat'' ?s1 = ''{} inject_client_side_delete:in.pat''"
    by (simp add: json_header_def big_env_def sample_env_def sample_source_def
        sample_json_write_def addConversionEntry_def)
  have argv: "sample_argv ! Suc 0 = ''in.pat''" "sample_argv ! Suc (Suc 0) = ''out.pat''"
    by (simp_all add: sample_argv_def)
  have "passes big_env (sample_argv ! 1) ?s1 =
      ([NextCall (Some big_call), NextCall None,
        CloseSource, DeleteParseInterface, NewParseInterface True,
        OpenSource ''in.pat'' True, NextCall (Some big_call)], Inl Buffer_overrun)"
    using passes_rewrite_stops [OF o2, of ?s1 Map.empty Buffer_overrun]
    by (simp add: fl rw argv)
  with main_reaches_passes [OF opts sample_len o1 out] over show ?thesis
    by (simp add: js argv)
qed

lemma sample_pre:
  "rewrite sample_Serialize m [sample_call 1 0, sample_call 2 0] 0 =
     ([NextCall (Some (sample_call 1 0)), Write (sample_call 1 0) ''glDrawArrays1'',
       NextCall (Some (sample_call 2 0)), Write (sample_call 2 0) ''glDrawArrays2'',
       NextCall None], Inr 0)"
  if "m 1 = None" and "m 2 = None"
  using that
  by (simp add: sample_Serialize_def sample_call_def rewrite.simps writeout_def before_def
      emit_def ret_def Let_def WRITE_BUF_LEN_def dec_def dec_nat.simps digit_def)

lemma sample_calls_split:
  "sample_calls = [sample_call 1 0, sample_call 2 0] @ sample_call 3 0 #
      [sample_call 4 0, sample_call 5 0, sample_call 10 1, sample_call 11 1, sample_call 12 1]"
  by (simp add: sample_calls_def)

theorem main_injects_deletion_after_last_use_witness:
  "take 3 (drop 28 (fst (main sample_env sample_argv))) =
     [NextCall (Some (sample_call 3 0)),
      Write (sample_call 3 0) ''glDrawArrays3'',
      Write (sample_deletion 7 0) ''glDeleteClientSideBuffer7'']"
proof -
  have ser: "Serialize sample_env = sample_Serialize"
    by (simp add: sample_env_def)
  have src_calls: "calls sample_source = sample_calls"
    by (simp add: sample_source_def)
  have cs: "calls sample_source = [sample_call 1 0, sample_call 2 0] @ sample_call 3 0 #
      [sample_call 4 0, sample_call 5 0, sample_call 10 1, sample_call 11 1, sample_call 12 1]"
    by (simp add: sample_source_def sample_calls_split)
  have pre: "rewrite sample_Serialize sample_map [sample_call 1 0, sample_call 2 0] 0 =
     ([NextCall (Some (sample_call 1 0)), Write (sample_call 1 0) ''glDrawArrays1'',
       NextCall (Some (sample_call 2 0)), Write (sample_call 2 0) ''glDrawArrays2'',
       NextCall None], Inr 0)"
    by (rule sample_pre) (simp_all add: sample_map_def)
  have h8: "snd (rewrite (Serialize sample_env) sample_map [sample_call 1 0, sample_call 2 0] 0) =
      Inr 0"
    by (simp add: ser pre)
  have h9: "sample_map (mCallNo (sample_call 3 0)) = Some 7"
    by (simp add: sample_map_def sample_call_def)
  have del: "deletion sample_map (sample_call 3 0) = sample_deletion 7 0"
    by (simp add: deletion_def sample_map_def sample_call_def sample_deletion_def
        CallTM_named_def subscript_def)
  have bytes: "sample_Serialize (sample_call 3 0) = ''glDrawArrays3''"
    "sample_Serialize (sample_deletion 7 0) = ''glDeleteClientSideBuffer7''"
    by (simp_all add: sample_Serialize_def sample_call_def sample_deletion_def
        dec_def dec_nat.simps digit_def)
  have h10: "length (Serialize sample_env (sample_call 3 0)) \<le> WRITE_BUF_LEN"
    by (simp add: ser bytes WRITE_BUF_LEN_def)
  have h11: "length (Serialize sample_env (deletion sample_map (sample_call 3 0))) \<le> WRITE_BUF_LEN"
    by (simp add: ser del bytes WRITE_BUF_LEN_def)
  note inst = main_injects_deletion_after_last_use [OF sample_opts sample_len sample_open1
      sample_out sample_open2 sample_flatten_snd cs h8 h9 h10 h11, THEN conjunct1]
  show ?thesis
    apply (subst inst)
    apply (simp add: sample_flatten ser pre del bytes src_calls sample_calls_eq)
    done
qed

lemma colliding_flatten:
  "flatten colliding_reason colliding_last_use Map.empty =
     ([Stdout (''Thread 0 has 1 cs:call pairs'' @ endl),
       DbgLog (tab @ ''t0 cs7 call3 endpoint=glDrawArrays'' @ endl),
       Stdout (''Thread 1 has 1 cs:call pairs'' @ endl),
       DbgLog (tab @ ''t1 cs9 call3 endpoint=glDrawElements'' @ endl)],
      Inr [3 \<mapsto> 9])"
  by (simp add: colliding_reason_def colliding_last_use_def at_def ret_def before_def emit_def
      dec_def dec_nat.simps digit_def)

theorem main_flattened_map_last_write_wins_witness:
  "insertions colliding_last_use = [(3, 7), (3, 9)]
   \<and> take 3 (drop 28 (fst (main colliding_env sample_argv))) =
     [NextCall (Some (sample_call 3 0)),
      Write (sample_call 3 0) ''glDrawArrays3'',
      Write (sample_deletion 9 0) ''glDeleteClientSideBuffer9'']"
proof -
  let ?s1 = "sample_source\<lparr>client_side_last_use := colliding_last_use,
               client_side_last_use_reason := colliding_reason\<rparr>"
  have ser: "Serialize colliding_env = sample_Serialize"
    by (simp add: colliding_env_def sample_env_def)
  have opts: "snd (options (PATRACE_VERSION colliding_env) (drop 1 sample_argv) 1 False) =
      Inr (1, False)"
    by (simp add: sample_argv_def options.simps(2))
  have o1: "open_pass1 colliding_env (sample_argv ! 1) = Some ?s1"
    by (simp add: colliding_env_def sample_argv_def)
  have out: "open_output colliding_env (sample_argv ! (1 + 1))"
    by (simp add: colliding_env_def sample_env_def sample_argv_def)
  have o2: "open_pass2 colliding_env (sample_argv ! 1) = Some sample_source"
    by (simp add: colliding_env_def sample_env_def sample_argv_def)
  have fl: "snd (flatten (client_side_last_use_reason ?s1) (client_side_last_use ?s1) Map.empty) =
      Inr [3 \<mapsto> 9]"
    by (simp add: colliding_flatten)
  have ins: "insertions colliding_last_use = [(3, 7), (3, 9)]"
    by (simp add: insertions_def colliding_last_use_def)
  have ins': "insertions (client_side_last_use ?s1) = [(3, 7)] @ (3, 9) # [] \<and>
      3 \<notin> fst ` set ([] :: (int \<times> int) list)"
    by (simp add: ins)
  have src_calls: "calls sample_source = sample_calls"
    by (simp add: sample_source_def)
  have cs: "calls sample_source = [sample_call 1 0, sample_call 2 0] @ sample_call 3 0 #
      [sample_call 4 0, sample_call 5 0, sample_call 10 1, sample_call 11 1, sample_call 12 1]"
    by (simp add: sample_source_def sample_calls_split)
  have pre: "rewrite sample_Serialize [3 \<mapsto> 9] [sample_call 1 0, sample_call 2 0] 0 =
     ([NextCall (Some (sample_call 1 0)), Write (sample_call 1 0) ''glDrawArrays1'',
       NextCall (Some (sample_call 2 0)), Write (sample_call 2 0) ''glDrawArrays2'',
       NextCall None], Inr 0)"
    by (rule sample_pre) simp_all
  have del: "deletion [3 \<mapsto> 9] (sample_call 3 0) = sample_deletion 9 0"
    by (simp add: deletion_def sample_call_def sample_deletion_def CallTM_named_def
        subscript_def)
  have bytes: "sample_Serialize (sample_call 3 0) = ''glDrawArrays3''"
    "sample_Serialize (sample_deletion 9 0) = ''glDeleteClientSideBuffer9''"
    by (simp_all add: sample_Serialize_def sample_call_def sample_deletion_def
        dec_def dec_nat.simps digit_def)
  have r: "calls sample_source = [sample_call 1 0, sample_call 2 0] @ sample_call 3 0 #
        [sample_call 4 0, sample_call 5 0, sample_call 10 1, sample_call 11 1, sample_call 12 1] \<and>
      mCallNo (sample_call 3 0) = 3 \<and>
      snd (rewrite (Serialize colliding_env) [3 \<mapsto> 9] [sample_call 1 0, sample_call 2 0] 0) =
        Inr 0 \<and>
      length (Serialize colliding_env (sample_call 3 0)) \<le> WRITE_BUF_LEN \<and>
      length (Serialize colliding_env (deletion [3 \<mapsto> 9] (sample_call 3 0))) \<le> WRITE_BUF_LEN"
    by (simp add: cs ser pre del bytes WRITE_BUF_LEN_def) (simp add: sample_call_def)
  note inst = main_flattened_map_last_write_wins [OF opts sample_len o1 out o2 fl,
      THEN conjunct2, rule_format, OF ins', THEN conjunct2, rule_format, OF r, THEN conjunct1]
  have "take 3 (drop 28 (fst (main colliding_env sample_argv))) =
     [NextCall (Some (sample_call 3 0)),
      Write (sample_call 3 0) ''glDrawArrays3'',
      Write (sample_deletion 9 0) ''glDeleteClientSideBuffer9'']"
    apply (subst inst)
    apply (simp add: colliding_flatten ser pre del bytes src_calls sample_calls_eq)
    done
  with ins show ?thesis by simp
qed

theorem main_header_written_once_first_witness:
  "take 7 (fst (main sample_env sample_argv)) =
     [NewParseInterface True, SetQuickMode True, SetScreenshots False,
      OpenSource ''in.pat'' True, OpenOutput ''out.pat'' True,
      SetJsonLength 35, WriteHeader ''{} inject_client_side_delete:in.pat'' 35]
   \<and> json_header sample_env ''in.pat'' sample_source =
       sample_json_write
         \<lparr>content = ''{}'',
          conversions = [\<lparr>operation = ''inject_client_side_delete'', source = ''in.pat'',
                          info = []\<rparr>]\<rparr>"
proof -
  have js: "json_header sample_env ''in.pat'' sample_source = ''{} inject_client_side_delete:in.pat''"
    by (simp add: json_header_def sample_env_def sample_source_def sample_json_write_def
        addConversionEntry_def)
  have argv: "sample_argv ! Suc 0 = ''in.pat''" "sample_argv ! Suc (Suc 0) = ''out.pat''"
    by (simp_all add: sample_argv_def)
  have hdr: "header sample_source = \<lparr>content = ''{}'', conversions = []\<rparr>"
    "json_write sample_env = sample_json_write"
    by (simp_all add: sample_source_def sample_env_def)
  from main_header_written_once_first [OF sample_opts sample_len sample_open1 sample_out]
  show ?thesis
    by (simp add: argv hdr js)
qed

theorem main_quick_mode_first_pass_only_witness:
  "opened_with [] (fst (main sample_env sample_argv)) =
     [([SetQuickMode True, SetScreenshots False], ''in.pat'', True), ([], ''in.pat'', True)]"
proof -
  have argv: "sample_argv ! Suc 0 = ''in.pat''"
    by (simp add: sample_argv_def)
  from main_quick_mode_first_pass_only [OF sample_opts sample_len sample_open1 sample_out]
  show ?thesis
    by (simp add: argv sample_env_def)
qed

theorem main_positional_after_options_witness:
  "take 4 (fst (main sample_env [''clientsidetrim'', ''-d'', ''in.pat'', ''-h''])) =
     [NewParseInterface True, SetQuickMode True, SetScreenshots False,
      OpenSource ''in.pat'' True]
   \<and> fst (main sample_env [''clientsidetrim'', ''-d'', ''in.pat'', ''-h'']) ! 4 =
       OpenOutput ''-h'' True"
proof -
  have p: "positional ''in.pat''" by (simp add: positional_def)
  from main_positional_after_options [OF p, of sample_env 1 "''-h''" "[]" "''clientsidetrim''"]
  show ?thesis
    by (simp add: sample_env_def)
qed

theorem main_open_failures_witness:
  "main sample_env [''clientsidetrim'', ''missing.pat'', ''out.pat''] =
     ([NewParseInterface True, SetQuickMode True, SetScreenshots False,
       OpenSource ''missing.pat'' False,
       Stderr (''Failed to open for reading: missing.pat'' @ endl)], Inl (Exit 1))
   \<and> main sample_env [''clientsidetrim'', ''in.pat'', ''/nodir/out.pat''] =
     ([NewParseInterface True, SetQuickMode True, SetScreenshots False,
       OpenSource ''in.pat'' True, OpenOutput ''/nodir/out.pat'' False,
       Stderr (''Failed to open for writing: /nodir/out.pat'' @ endl)], Inl (Exit 1))
   \<and> snd (main (sample_env\<lparr>open_pass2 := \<lambda>path. None\<rparr>) sample_argv) = Inl (Exit 1)
   \<and> last (fst (main (sample_env\<lparr>open_pass2 := \<lambda>path. None\<rparr>) sample_argv)) =
       Stderr (''Failed to open for reading again: in.pat'' @ endl)"
proof -
  let ?a = "[''clientsidetrim'', ''missing.pat'', ''out.pat'']"
  let ?b = "[''clientsidetrim'', ''in.pat'', ''/nodir/out.pat'']"
  let ?e = "sample_env\<lparr>open_pass2 := \<lambda>path. None\<rparr>"
  have a: "snd (options (PATRACE_VERSION sample_env) (drop 1 ?a) 1 False) = Inr (1, False)"
    by (simp add: options.simps(2))
  have b: "snd (options (PATRACE_VERSION sample_env) (drop 1 ?b) 1 False) = Inr (1, False)"
    by (simp add: options.simps(2))
  have c: "snd (options (PATRACE_VERSION ?e) (drop 1 sample_argv) 1 False) = Inr (1, False)"
    by (simp add: sample_argv_def options.simps(2))
  have first: "main sample_env ?a =
     ([NewParseInterface True, SetQuickMode True, SetScreenshots False,
       OpenSource ''missing.pat'' False,
       Stderr (''Failed to open for reading: missing.pat'' @ endl)], Inl (Exit 1))"
    using main_open_failures [OF a, of sample_source]
    by (simp add: sample_env_def)
  have second: "main sample_env ?b =
     ([NewParseInterface True, SetQuickMode True, SetScreenshots False,
       OpenSource ''in.pat'' True, OpenOutput ''/nodir/out.pat'' False,
       Stderr (''Failed to open for writing: /nodir/out.pat'' @ endl)], Inl (Exit 1))"
    using main_open_failures [OF b, of sample_source]
    by (simp add: sample_env_def)
  have third: "snd (main ?e sample_argv) = Inl (Exit 1) \<and>
      last (fst (main ?e sample_argv)) =
        Stderr (''Failed to open for reading again: in.pat'' @ endl)"
    using main_open_failures [OF c sample_len, of sample_source]
    by (simp add: sample_env_def sample_argv_def)
  from first second third show ?thesis by simp
qed


end
